theory Spec2Isabelle
  imports Complex_Main "HOL-Library.AList"
begin

section \<open>Python strings and the built-ins the importer calls\<close>

text \<open>
  A Python \<open>str\<close> is modelled as a \<open>string\<close> whose characters are the code points
  below 256. The functions of this section are the built-ins that
  \<open>ImportOlxHousePrice.py\<close> calls: \<open>str.strip\<close>, \<open>str.replace\<close>, \<open>float\<close> and \<open>int\<close>.
\<close>

datatype exn =
    ValueError string
  | OverflowError string
  | AttributeError string
  | KeyError string
  | SinkError string

fun str_exn :: "exn \<Rightarrow> string" where
  "str_exn (ValueError m) = m"
| "str_exn (OverflowError m) = m"
| "str_exn (AttributeError m) = m"
| "str_exn (KeyError m) = m"
| "str_exn (SinkError m) = m"

text \<open>The code points below 256 for which \<open>str.isspace\<close> holds; \<open>str.strip()\<close> removes them.\<close>

definition isspace :: "char \<Rightarrow> bool" where
  "isspace c = ((of_char c :: nat) \<in> {9, 10, 11, 12, 13, 28, 29, 30, 31, 32, 133, 160})"

definition strip_with :: "(char \<Rightarrow> bool) \<Rightarrow> string \<Rightarrow> string" where
  "strip_with p s = rev (dropWhile p (rev (dropWhile p s)))"

definition strip :: "string \<Rightarrow> string" where
  "strip s = strip_with isspace s"

text \<open>\<open>value.replace(",", ".")\<close>: both arguments are one character long.\<close>

definition replace_char :: "char \<Rightarrow> char \<Rightarrow> string \<Rightarrow> string" where
  "replace_char a b s = map (\<lambda>c. if c = a then b else c) s"

definition comma_to_period :: "string \<Rightarrow> string" where
  "comma_to_period s = replace_char (CHR '','') (CHR ''.'') s"

subsection \<open>Binary64 values\<close>

text \<open>
  A Python \<open>float\<close> is a finite binary64 number, an infinity, or a NaN. The finite
  number \<open>Fin neg m p\<close> has the magnitude \<open>m * 2^p\<close>, for a natural number \<open>m\<close>, and
  is negative when \<open>neg\<close> holds; \<open>Fin True 0 p\<close> is a negative zero.
\<close>

datatype pyfloat = Fin bool int int | PosInf | NegInf | NaN

definition pow2 :: "int \<Rightarrow> rat" where
  "pow2 e = (if 0 \<le> e then 2 ^ nat e else 1 / 2 ^ nat (- e))"

text \<open>The magnitude of a finite float, as a rational.\<close>

definition magnitude :: "int \<Rightarrow> int \<Rightarrow> rat" where
  "magnitude m p = of_int m * pow2 p"

text \<open>The number of binary digits of a positive integer.\<close>

function blen :: "int \<Rightarrow> nat" where
  "blen n = (if n \<le> 0 then 0 else Suc (blen (n div 2)))"
  by pat_completeness auto
termination
  by (relation "measure nat") auto

declare blen.simps [simp del]

text \<open>\<open>floor_log2 n d\<close> is the integer \<open>e\<close> with \<open>2^e \<le> n/d < 2^(e+1)\<close>, for positive \<open>n\<close> and \<open>d\<close>.\<close>

definition floor_log2 :: "int \<Rightarrow> int \<Rightarrow> int" where
  "floor_log2 n d =
     (let e0 = int (blen n) - int (blen d)
      in if (if 0 \<le> e0 then d * 2 ^ nat e0 \<le> n else d \<le> n * 2 ^ nat (- e0))
         then e0 else e0 - 1)"

text \<open>The integer nearest to \<open>n/d\<close>, a tie going to the even one.\<close>

definition round_half_even :: "int \<Rightarrow> int \<Rightarrow> int" where
  "round_half_even n d =
     (let q = n div d; r = n mod d
      in if 2 * r < d then q
         else if d < 2 * r then q + 1
         else if even q then q else q + 1)"

text \<open>
  The binary64 number nearest to \<open>n/d\<close> (53 significant bits, least exponent -1022,
  ties to even), with overflow to an infinity: the correctly rounded result that
  \<open>float\<close> computes from a decimal literal.
\<close>

definition to_double :: "bool \<Rightarrow> int \<Rightarrow> int \<Rightarrow> pyfloat" where
  "to_double neg n d =
     (if n = 0 then Fin neg 0 0
      else
        let e = max (floor_log2 n d) (- 1022);
            p = e - 52;
            m = (if 0 \<le> p then round_half_even n (d * 2 ^ nat p)
                 else round_half_even (n * 2 ^ nat (- p)) d);
            overflow = (if 0 \<le> p then 2 ^ 1024 \<le> m * 2 ^ nat p
                        else 2 ^ 1024 * 2 ^ nat (- p) \<le> m)
        in if overflow then (if neg then NegInf else PosInf) else Fin neg m p)"

subsection \<open>\<open>float(str)\<close>\<close>

definition is_digit :: "char \<Rightarrow> bool" where
  "is_digit c = (c \<in> set ''0123456789'')"

definition digit_val :: "char \<Rightarrow> int" where
  "digit_val c = of_char c - 48"

definition digits_val :: "string \<Rightarrow> int" where
  "digits_val ds = foldl (\<lambda>a c. 10 * a + digit_val c) 0 ds"

text \<open>The ASCII letter in lower case, for the comparison that ignores case.\<close>

definition lower :: "char \<Rightarrow> char" where
  "lower c =
     (case map_of (zip ''ABCDEFGHIJKLMNOPQRSTUVWXYZ'' ''abcdefghijklmnopqrstuvwxyz'') c of
        Some l \<Rightarrow> l
      | None \<Rightarrow> c)"

text \<open>
  \<open>float\<close> takes an underscore only between two digits. The check runs over the whole
  argument, \<open>prev\<close> being the character before (NUL at the start).
\<close>

fun underscores_ok :: "char \<Rightarrow> string \<Rightarrow> bool" where
  "underscores_ok prev [] = (prev \<noteq> CHR ''_'')"
| "underscores_ok prev (c # cs) =
     (if c = CHR ''_'' then is_digit prev \<and> underscores_ok c cs
      else if prev = CHR ''_'' then is_digit c \<and> underscores_ok c cs
      else underscores_ok c cs)"

text \<open>The whitespace \<open>float\<close> itself removes at both ends of its argument.\<close>

definition is_float_space :: "char \<Rightarrow> bool" where
  "is_float_space c = ((of_char c :: nat) \<in> {9, 10, 11, 12, 13, 32, 133, 160})"

text \<open>An optional sign in front of \<open>s\<close>: whether it is a minus, and the rest.\<close>

fun take_sign :: "string \<Rightarrow> bool \<times> string" where
  "take_sign [] = (False, [])"
| "take_sign (c # cs) =
     (if c = CHR ''-'' then (True, cs)
      else if c = CHR ''+'' then (False, cs)
      else (False, c # cs))"

text \<open>
  The exponent part of a decimal literal: \<open>None\<close> when \<open>s\<close> is not of the form
  \<open>e[sign]digits\<close> (and not empty), else the exponent.
\<close>

definition parse_exponent :: "string \<Rightarrow> int option" where
  "parse_exponent s =
     (case s of
        [] \<Rightarrow> Some 0
      | c # cs \<Rightarrow>
          if c = CHR ''e'' \<or> c = CHR ''E'' then
            (let (eneg, ds) = take_sign cs
             in if ds \<noteq> [] \<and> list_all is_digit ds
                then Some (if eneg then - digits_val ds else digits_val ds)
                else None)
          else None)"

text \<open>
  A decimal literal \<open>digits[.digits][e[sign]digits]\<close> with a digit before the exponent,
  as the pair \<open>(n, d)\<close> of its exact value \<open>n/d\<close>.
\<close>

definition parse_decimal :: "string \<Rightarrow> (int \<times> int) option" where
  "parse_decimal s =
     (let ip = takeWhile is_digit s;
          r1 = dropWhile is_digit s;
          (fp, r2) = (case r1 of
                        [] \<Rightarrow> ([], r1)
                      | c # cs \<Rightarrow> if c = CHR ''.''
                                  then (takeWhile is_digit cs, dropWhile is_digit cs)
                                  else ([], r1))
      in if ip = [] \<and> fp = [] then None
         else case parse_exponent r2 of
                None \<Rightarrow> None
              | Some ex \<Rightarrow>
                  (let k = ex - int (length fp); mant = digits_val (ip @ fp)
                   in if 0 \<le> k then Some (mant * 10 ^ nat k, 1)
                      else Some (mant, 10 ^ nat (- k))))"

definition float_error :: "string \<Rightarrow> exn" where
  "float_error s = ValueError (''could not convert string to float: '' @ s)"

text \<open>
  \<open>float(s)\<close> for a string \<open>s\<close>: the underscore check, the removal of the underscores
  and of the surrounding whitespace, then an optional sign followed by \<open>inf\<close>,
  \<open>infinity\<close> or \<open>nan\<close> in any case, or by a decimal literal. Anything else raises
  \<open>ValueError\<close>.
\<close>

definition py_float :: "string \<Rightarrow> exn + pyfloat" where
  "py_float s =
     (if \<not> underscores_ok (CHR 0x00) s then Inl (float_error s)
      else
        let t = strip_with is_float_space (filter (\<lambda>c. c \<noteq> CHR ''_'') s);
            (neg, r) = take_sign t;
            l = map lower r
        in if l = ''inf'' \<or> l = ''infinity'' then Inr (if neg then NegInf else PosInf)
           else if l = ''nan'' then Inr NaN
           else case parse_decimal r of
                  None \<Rightarrow> Inl (float_error s)
                | Some (n, d) \<Rightarrow> Inr (to_double neg n d))"

text \<open>
  \<open>int(x)\<close> for a float \<open>x\<close>: the integer part, truncated toward zero;
  \<open>OverflowError\<close> on an infinity and \<open>ValueError\<close> on a NaN.
\<close>

fun py_int :: "pyfloat \<Rightarrow> exn + int" where
  "py_int (Fin neg m p) =
     (let a = (if 0 \<le> p then m * 2 ^ nat p else m div 2 ^ nat (- p))
      in Inr (if neg then - a else a))"
| "py_int PosInf = Inl (OverflowError ''cannot convert float infinity to integer'')"
| "py_int NegInf = Inl (OverflowError ''cannot convert float infinity to integer'')"
| "py_int NaN = Inl (ValueError ''cannot convert float NaN to integer'')"

section \<open>Scalar converters\<close>

text \<open>The values a converter returns: \<open>None\<close>, a float, an int or a str.\<close>

datatype pyval = VNone | VFloat pyfloat | VInt int | VStr string

text \<open>
  \<open>except (ValueError, InvalidOperation)\<close>: \<open>InvalidOperation\<close> is raised by
  \<open>decimal\<close>, which nothing here calls, so the clause catches \<open>ValueError\<close>.
\<close>

fun caught :: "exn \<Rightarrow> bool" where
  "caught (ValueError m) = True"
| "caught e = False"

definition parse_float :: "string \<Rightarrow> exn + pyval" where
  "parse_float value0 =
     (if value0 = [] then Inr VNone
      else
        let v = strip value0
        in if v = [] then Inr VNone
           else case py_float (comma_to_period v) of
                  Inr x \<Rightarrow> Inr (VFloat x)
                | Inl e \<Rightarrow> if caught e then Inr VNone else Inl e)"

definition parse_int :: "string \<Rightarrow> exn + pyval" where
  "parse_int value0 =
     (if value0 = [] then Inr VNone
      else
        let v = strip value0
        in if v = [] then Inr VNone
           else case py_float (comma_to_period v) of
                  Inl e \<Rightarrow> if caught e then Inr VNone else Inl e
                | Inr x \<Rightarrow>
                    (case py_int x of
                       Inl e \<Rightarrow> if caught e then Inr VNone else Inl e
                     | Inr i \<Rightarrow> Inr (VInt i)))"

definition parse_tinyint :: "string \<Rightarrow> exn + pyval" where
  "parse_tinyint value0 =
     (if value0 = [] then Inr VNone
      else
        let v = strip value0
        in if v = [] then Inr VNone
           else case py_float (comma_to_period v) of
                  Inl e \<Rightarrow> if caught e then Inr VNone else Inl e
                | Inr x \<Rightarrow>
                    (case py_int x of
                       Inl e \<Rightarrow> if caught e then Inr VNone else Inl e
                     | Inr int_val \<Rightarrow>
                         if 0 \<le> int_val \<and> int_val \<le> 255 then Inr (VInt int_val)
                         else Inr VNone))"

text \<open>\<open>lambda x: x[:50] if x else None\<close>, the converter of the \<open>nvarchar(50)\<close> columns.\<close>

definition str50 :: "string \<Rightarrow> exn + pyval" where
  "str50 x = (if x \<noteq> [] then Inr (VStr (take 50 x)) else Inr VNone)"

section \<open>Schema\<close>

record col_def =
  sql_type :: string
  nullable :: bool
  converter :: "string \<Rightarrow> exn + pyval"

text \<open>\<open>COLUMN_DEFS\<close>, a dict: its items in insertion order.\<close>

definition COLUMN_DEFS :: "(string \<times> col_def) list" where
  "COLUMN_DEFS =
    [(''price'', \<lparr>sql_type = ''float'', nullable = False, converter = (\<lambda>x. parse_float x)\<rparr>),
     (''price_per_meter'', \<lparr>sql_type = ''float'', nullable = False, converter = (\<lambda>x. parse_float x)\<rparr>),
     (''offer_type'', \<lparr>sql_type = ''nvarchar(50)'', nullable = False, converter = str50\<rparr>),
     (''floor'', \<lparr>sql_type = ''tinyint'', nullable = True, converter = (\<lambda>x. parse_tinyint x)\<rparr>),
     (''area'', \<lparr>sql_type = ''float'', nullable = True, converter = (\<lambda>x. parse_float x)\<rparr>),
     (''rooms'', \<lparr>sql_type = ''tinyint'', nullable = False, converter = (\<lambda>x. parse_tinyint x)\<rparr>),
     (''offer_type_of_building'', \<lparr>sql_type = ''nvarchar(50)'', nullable = True, converter = str50\<rparr>),
     (''market'', \<lparr>sql_type = ''nvarchar(50)'', nullable = False, converter = str50\<rparr>),
     (''city_name'', \<lparr>sql_type = ''nvarchar(50)'', nullable = False, converter = str50\<rparr>),
     (''voivodeship'', \<lparr>sql_type = ''nvarchar(50)'', nullable = False, converter = str50\<rparr>),
     (''month'', \<lparr>sql_type = ''nvarchar(50)'', nullable = False, converter = str50\<rparr>),
     (''year'', \<lparr>sql_type = ''smallint'', nullable = False, converter = (\<lambda>x. parse_int x)\<rparr>),
     (''population'', \<lparr>sql_type = ''int'', nullable = False, converter = (\<lambda>x. parse_int x)\<rparr>),
     (''longitude'', \<lparr>sql_type = ''float'', nullable = False, converter = (\<lambda>x. parse_float x)\<rparr>),
     (''latitude'', \<lparr>sql_type = ''float'', nullable = False, converter = (\<lambda>x. parse_float x)\<rparr>)]"

definition REQUIRED_FIELDS :: "string list" where
  "REQUIRED_FIELDS =
    [''price'', ''price_per_meter'', ''rooms'', ''year'', ''population'', ''longitude'',
     ''latitude'', ''offer_type'', ''market'', ''city_name'', ''voivodeship'']"

section \<open>Row validator\<close>

text \<open>
  A row as \<open>csv.DictReader\<close> yields it: a dict from the header's names to the cells of
  the line. A cell is a str, or \<open>None\<close> (the reader's \<open>restval\<close>) for a header name
  beyond the last field of a short line.
\<close>

datatype cell = CStr string | CNone

type_synonym row = "string \<rightharpoonup> cell"

text \<open>
  \<open>row.get(col_name, "").strip() if col_name in row else ""\<close>. The call of \<open>strip\<close>
  on a \<open>None\<close> cell raises, outside every \<open>try\<close> of the function.
\<close>

definition none_strip_message :: string where
  "none_strip_message =
     [CHR 0x27] @ ''NoneType'' @ [CHR 0x27] @ '' object has no attribute '' @ [CHR 0x27]
       @ ''strip'' @ [CHR 0x27]"

definition get_raw :: "row \<Rightarrow> string \<Rightarrow> exn + string" where
  "get_raw r col_name =
     (case r col_name of
        None \<Rightarrow> Inr []
      | Some (CStr s) \<Rightarrow> Inr (strip s)
      | Some CNone \<Rightarrow> Inl (AttributeError none_strip_message))"

record vstate =
  converted :: "(string \<times> pyval) list"
  errors :: "string list"
  raw_values :: "(string \<times> string) list"

definition fault_message :: "string \<Rightarrow> exn \<Rightarrow> string" where
  "fault_message col_name e = ''  '' @ col_name @ '': '' @ str_exn e"

definition missing_message :: "string \<Rightarrow> string \<Rightarrow> string" where
  "missing_message col_name raw_value =
     ''  '' @ col_name @ '': Missing or invalid (raw value: '' @ [CHR 0x27] @ raw_value
       @ [CHR 0x27] @ '')''"

text \<open>One pass of the loop over \<open>COLUMN_DEFS.items()\<close>.\<close>

definition column_step :: "row \<Rightarrow> string \<times> col_def \<Rightarrow> vstate \<Rightarrow> exn + vstate" where
  "column_step r cd st =
     (let col_name = fst cd; cdef = snd cd
      in case get_raw r col_name of
           Inl e \<Rightarrow> Inl e
         | Inr raw_value \<Rightarrow>
             (let raws = AList.update col_name raw_value (raw_values st);
                  (converted_value, errs1) =
                     (case converter cdef raw_value of
                        Inr v \<Rightarrow> (v, errors st)
                      | Inl e \<Rightarrow> (VNone, errors st @ [fault_message col_name e]));
                  errs2 = (if col_name \<in> set REQUIRED_FIELDS \<and> converted_value = VNone
                           then errs1 @ [missing_message col_name raw_value]
                           else errs1)
              in Inr \<lparr>converted = AList.update col_name converted_value (converted st),
                      errors = errs2, raw_values = raws\<rparr>))"

fun validate_cols :: "row \<Rightarrow> (string \<times> col_def) list \<Rightarrow> vstate \<Rightarrow> exn + vstate" where
  "validate_cols r [] st = Inr st"
| "validate_cols r (cd # cds) st =
     (case column_step r cd st of
        Inl e \<Rightarrow> Inl e
      | Inr st' \<Rightarrow> validate_cols r cds st')"

text \<open>\<open>sep.join(xs)\<close>.\<close>

fun join :: "string \<Rightarrow> string list \<Rightarrow> string" where
  "join sep [] = []"
| "join sep [x] = x"
| "join sep (x # y # ys) = x @ sep @ join sep (y # ys)"

text \<open>The result is \<open>(converted_row, is_valid, error_msg, raw_values)\<close>.\<close>

type_synonym vresult =
  "(string \<times> pyval) list \<times> bool \<times> string option \<times> (string \<times> string) list"

definition validate_and_convert_row :: "int \<Rightarrow> row \<Rightarrow> exn + vresult" where
  "validate_and_convert_row row_num r =
     (case validate_cols r COLUMN_DEFS \<lparr>converted = [], errors = [], raw_values = []\<rparr> of
        Inl e \<Rightarrow> Inl e
      | Inr st \<Rightarrow>
          (let is_valid = (length (errors st) = 0);
               error_msg = (if errors st \<noteq> [] then Some (join [CHR 0x0A] (errors st)) else None)
           in Inr (converted st, is_valid, error_msg, raw_values st)))"

section \<open>Batch loader\<close>

record sample =
  sample_row :: int
  sample_errors :: "string option"
  sample_raw_values :: "(string \<times> string) list"

text \<open>
  The state of \<open>insert_rows\<close>: its three local variables and the state of the database
  behind the cursor.
\<close>

record 'db lstate =
  inserted :: nat
  rejected :: nat
  rejected_samples :: "sample list"
  cursor :: 'db

text \<open>The columns of the \<open>INSERT\<close> statement, in the order of the \<open>values\<close> tuple.\<close>

definition INSERT_COLUMNS :: "string list" where
  "INSERT_COLUMNS =
    [''price'', ''price_per_meter'', ''offer_type'', ''floor'', ''area'', ''rooms'',
     ''offer_type_of_building'', ''market'', ''city_name'', ''voivodeship'', ''month'', ''year'',
     ''population'', ''longitude'', ''latitude'']"

text \<open>\<open>d[k]\<close> for each \<open>k\<close> of a list, in order; a missing key raises \<open>KeyError\<close>.\<close>

fun lookup_all :: "(string \<times> 'v) list \<Rightarrow> string list \<Rightarrow> exn + 'v list" where
  "lookup_all d [] = Inr []"
| "lookup_all d (k # ks) =
     (case map_of d k of
        None \<Rightarrow> Inl (KeyError k)
      | Some v \<Rightarrow> (case lookup_all d ks of Inl e \<Rightarrow> Inl e | Inr vs \<Rightarrow> Inr (v # vs)))"

text \<open>
  The loop of \<open>insert_rows\<close>. \<open>exec\<close> is \<open>cursor.execute\<close> on the \<open>INSERT\<close> statement:
  from the state of the database and the values of a row, the new state and the
  exception raised, if any.
\<close>

fun insert_loop ::
  "('db \<Rightarrow> pyval list \<Rightarrow> 'db \<times> exn option) \<Rightarrow> (int \<times> row) list \<Rightarrow> 'db lstate
     \<Rightarrow> exn + 'db lstate" where
  "insert_loop exec [] st = Inr st"
| "insert_loop exec ((row_num, r) # rest) st =
     (case validate_and_convert_row row_num r of
        Inl e \<Rightarrow> Inl e
      | Inr (conv, is_valid, error_msg, raws) \<Rightarrow>
          if \<not> is_valid then
            insert_loop exec rest
              (st\<lparr>rejected := rejected st + 1,
                  rejected_samples :=
                    (if length (rejected_samples st) < 20
                     then rejected_samples st
                            @ [\<lparr>sample_row = row_num, sample_errors = error_msg,
                                sample_raw_values = raws\<rparr>]
                     else rejected_samples st)\<rparr>)
          else
            (case lookup_all conv INSERT_COLUMNS of
               Inl e \<Rightarrow> Inl e
             | Inr vals \<Rightarrow>
                 (case exec (cursor st) vals of
                    (db, None) \<Rightarrow>
                      insert_loop exec rest (st\<lparr>cursor := db, inserted := inserted st + 1\<rparr>)
                  | (db, Some e) \<Rightarrow>
                      insert_loop exec rest (st\<lparr>cursor := db, rejected := rejected st + 1\<rparr>))))"

text \<open>
  \<open>insert_rows\<close> up to the summary it prints: the loop, then \<open>cursor.commit()\<close>,
  which may raise. The result carries the counts and the samples that the summary shows.
\<close>

definition insert_rows ::
  "('db \<Rightarrow> pyval list \<Rightarrow> 'db \<times> exn option) \<Rightarrow> ('db \<Rightarrow> exn + 'db) \<Rightarrow> 'db
     \<Rightarrow> (int \<times> row) list \<Rightarrow> exn + 'db lstate" where
  "insert_rows exec commit db rows =
     (case insert_loop exec rows
             \<lparr>inserted = 0, rejected = 0, rejected_samples = [], cursor = db\<rparr> of
        Inl e \<Rightarrow> Inl e
      | Inr st \<Rightarrow>
          (case commit (cursor st) of
             Inl e \<Rightarrow> Inl e
           | Inr db' \<Rightarrow> Inr (st\<lparr>cursor := db'\<rparr>)))"

text \<open>
  The lines the report prints under \<open>Raw values:\<close> for one sample, one for each
  required field.
\<close>

definition raw_value_line :: "(string \<times> string) list \<Rightarrow> string \<Rightarrow> string" where
  "raw_value_line raws field =
     (let raw_val = (case map_of raws field of None \<Rightarrow> [] | Some v \<Rightarrow> v)
      in if raw_val = [] then ''    '' @ field @ '': [EMPTY]''
         else if 100 < length raw_val then ''    '' @ field @ '': '' @ take 100 raw_val @ ''...''
         else ''    '' @ field @ '': '' @ raw_val)"

definition report_raw_lines :: "sample \<Rightarrow> string list" where
  "report_raw_lines smp = map (raw_value_line (sample_raw_values smp)) REQUIRED_FIELDS"

section \<open>What the validator and the loader are compared with\<close>

text \<open>
  The trimmed text of a cell: the text the validator converts for a column. An absent
  key stands for the empty string.
\<close>

definition raw_text :: "row \<Rightarrow> string \<Rightarrow> string" where
  "raw_text r col_name = (case r col_name of Some (CStr s) \<Rightarrow> strip s | _ \<Rightarrow> [])"

text \<open>
  The value stored for a column whose converter is applied to \<open>raw\<close>, and the field
  errors recorded for it.
\<close>

definition column_value :: "col_def \<Rightarrow> string \<Rightarrow> pyval" where
  "column_value cdef raw = (case converter cdef raw of Inr v \<Rightarrow> v | Inl e \<Rightarrow> VNone)"

definition column_errors :: "string \<Rightarrow> col_def \<Rightarrow> string \<Rightarrow> string list" where
  "column_errors col_name cdef raw =
     (case converter cdef raw of Inr v \<Rightarrow> [] | Inl e \<Rightarrow> [fault_message col_name e])
     @ (if col_name \<in> set REQUIRED_FIELDS \<and> column_value cdef raw = VNone
        then [missing_message col_name raw] else [])"

text \<open>
  The reject samples of the rows that the validator finds invalid, in the order of the
  input.
\<close>

fun invalid_row_samples :: "(int \<times> row) list \<Rightarrow> sample list" where
  "invalid_row_samples [] = []"
| "invalid_row_samples ((row_num, r) # rest) =
     (case validate_and_convert_row row_num r of
        Inl e \<Rightarrow> invalid_row_samples rest
      | Inr (conv, is_valid, error_msg, raws) \<Rightarrow>
          if is_valid then invalid_row_samples rest
          else \<lparr>sample_row = row_num, sample_errors = error_msg, sample_raw_values = raws\<rparr>
                 # invalid_row_samples rest)"

text \<open>
  A row for the examples: every required field converts; the floor, which is not
  required, does not, and three columns are absent.
\<close>

definition example_row :: row where
  "example_row =
     map_of [(''price'', CStr ''1''), (''price_per_meter'', CStr ''1''),
        (''offer_type'', CStr ''a''), (''floor'', CStr ''x''), (''rooms'', CStr ''1''),
        (''market'', CStr ''a''), (''city_name'', CStr ''a''), (''voivodeship'', CStr ''a''),
        (''year'', CStr ''1''), (''population'', CStr ''1''), (''longitude'', CStr ''1''),
        (''latitude'', CStr ''1'')]"

text \<open>
  The row that \<open>csv.DictReader\<close> yields for the line \<open>100,2000\<close> under a header of the
  fifteen columns: the cells after the second are \<open>None\<close>.
\<close>

definition short_row :: row where
  "short_row =
     map_of [(''price'', CStr ''100''), (''price_per_meter'', CStr ''2000''),
        (''offer_type'', CNone), (''floor'', CNone), (''area'', CNone), (''rooms'', CNone),
        (''offer_type_of_building'', CNone), (''market'', CNone), (''city_name'', CNone),
        (''voivodeship'', CNone), (''month'', CNone), (''year'', CNone),
        (''population'', CNone), (''longitude'', CNone), (''latitude'', CNone)]"

section \<open>Properties of the string functions\<close>

lemma strip_with_map:
  assumes "\<And>c. p (f c) = p c"
  shows "strip_with p (map f s) = map f (strip_with p s)"
proof -
  have pf: "p \<circ> f = p" using assms by (simp add: fun_eq_iff)
  have dw: "dropWhile p (map f xs) = map f (dropWhile p xs)" for xs
    by (simp add: dropWhile_map pf)
  show ?thesis
    unfolding strip_with_def by (simp only: dw rev_map)
qed

lemma strip_with_all:
  assumes "list_all p s"
  shows "strip_with p s = []"
proof -
  have "dropWhile p s = []" using assms by (induction s) auto
  then show ?thesis unfolding strip_with_def by (simp only: rev.simps dropWhile.simps)
qed

lemma strip_with_ends:
  "strip_with p s = [] \<or> (\<not> p (hd (strip_with p s)) \<and> \<not> p (last (strip_with p s)))"
proof (cases "dropWhile p (rev (dropWhile p s)) = []")
  case True
  then show ?thesis by (simp add: strip_with_def)
next
  case False
  define u where "u = dropWhile p s"
  define w where "w = dropWhile p (rev u)"
  have w: "w \<noteq> []" using False by (simp add: w_def u_def)
  have u: "u \<noteq> []" using w by (auto simp: w_def)
  have hw: "\<not> p (hd w)" using w unfolding w_def by (rule hd_dropWhile)
  have hu: "\<not> p (hd u)" using u unfolding u_def by (rule hd_dropWhile)
  have "rev u = takeWhile p (rev u) @ w" by (simp add: w_def)
  then have "last (rev u) = last w" using w by (metis last_appendR)
  then have lw: "last w = hd u" using u by (simp add: last_rev)
  have t: "strip_with p s = rev w" by (simp add: strip_with_def w_def u_def)
  show ?thesis using w hw hu lw by (simp add: t hd_rev last_rev)
qed

lemma strip_with_idem: "strip_with p (strip_with p s) = strip_with p s"
proof (cases "strip_with p s = []")
  case True
  have "strip_with p [] = []" by (simp add: strip_with_def)
  with True show ?thesis by simp
next
  case False
  define t where "t = strip_with p s"
  from False strip_with_ends [of p s] have e: "t \<noteq> []" "\<not> p (hd t)" "\<not> p (last t)"
    by (auto simp: t_def)
  have 1: "dropWhile p t = t" using e by (cases t) auto
  have "rev t \<noteq> []" "\<not> p (hd (rev t))" using e by (simp_all add: hd_rev)
  then have 2: "dropWhile p (rev t) = rev t" by (cases "rev t") auto
  show ?thesis using 1 2 by (simp add: strip_with_def [of p t] t_def [symmetric])
qed

lemma strip_idem: "strip (strip s) = strip s"
  by (simp add: strip_def strip_with_idem)

lemma strip_Nil: "strip [] = []"
  by (simp add: strip_def strip_with_def)

lemma strip_whitespace: "list_all isspace s \<Longrightarrow> strip s = []"
  by (simp add: strip_def strip_with_all)

lemma strip_ends: "strip s = [] \<or> (\<not> isspace (hd (strip s)) \<and> \<not> isspace (last (strip s)))"
  unfolding strip_def by (rule strip_with_ends)

lemma isspace_comma_to_period:
  "isspace (if c = CHR '','' then CHR ''.'' else c) = isspace c"
  by (simp add: isspace_def)

lemma strip_comma_to_period: "strip (comma_to_period s) = comma_to_period (strip s)"
  unfolding strip_def comma_to_period_def replace_char_def
  by (rule strip_with_map) (rule isspace_comma_to_period)

lemma comma_to_period_idem: "comma_to_period (comma_to_period s) = comma_to_period s"
  by (simp add: comma_to_period_def replace_char_def)

lemma comma_to_period_Nil: "comma_to_period s = [] \<longleftrightarrow> s = []"
  by (simp add: comma_to_period_def replace_char_def)

section \<open>Evaluation of the converters on literals\<close>

lemma blen_eval:
  "blen 0 = 0" "blen 1 = 1" "blen (numeral k) = Suc (blen (numeral k div 2))"
  by (simp_all add: blen.simps [of 0] blen.simps [of 1] blen.simps [of "numeral k"])

lemmas float_eval = py_float_def float_error_def strip_with_def is_float_space_def lower_def
  parse_decimal_def parse_exponent_def digits_val_def digit_val_def is_digit_def
  to_double_def floor_log2_def blen_eval round_half_even_def Let_def

lemmas conv_eval = parse_float_def parse_int_def parse_tinyint_def str50_def strip_def
  isspace_def comma_to_period_def replace_char_def float_eval

text \<open>
  The parser and the rounding on some literals: a decimal fraction, a tie that goes to
  the even mantissa, a sign with an exponent, an underscore between digits, an infinity,
  a NaN and a string that \<open>float\<close> rejects.
\<close>

lemma py_float_examples:
  "py_float ''0.1'' = Inr (Fin False 7205759403792794 (- 56))"
  "py_float ''9007199254740993'' = Inr (Fin False 4503599627370496 1)"
  "py_float ''-2.5E3'' = Inr (Fin True 5497558138880000 (- 41))"
  "py_float ''1_000'' = py_float ''1000''"
  "py_float ''-Infinity'' = Inr NegInf"
  "py_float ''nan'' = Inr NaN"
  "py_float ''1,5'' = Inl (float_error ''1,5'')"
  by (simp_all add: float_eval)

section \<open>Properties of the converters\<close>

lemma py_float_raises: "py_float s = Inl e \<Longrightarrow> caught e"
  by (auto simp: py_float_def float_error_def Let_def split: if_splits prod.splits option.splits)

lemma parse_float_returns: "\<exists>v. parse_float s = Inr v"
  by (auto simp: parse_float_def Let_def dest: py_float_raises split: sum.splits)

lemma str50_returns: "\<exists>v. str50 s = Inr v"
  by (simp add: str50_def)

lemma parse_int_strip: "parse_int (strip s) = parse_int s"
  by (auto simp: parse_int_def Let_def strip_idem strip_Nil)

lemma parse_int_comma: "parse_int (comma_to_period s) = parse_int s"
  unfolding parse_int_def
  by (simp only: strip_comma_to_period comma_to_period_idem comma_to_period_Nil Let_def)

lemma parse_float_comma: "parse_float (comma_to_period s) = parse_float s"
  unfolding parse_float_def
  by (simp only: strip_comma_to_period comma_to_period_idem comma_to_period_Nil Let_def)

lemma parse_float_strip: "parse_float (strip s) = parse_float s"
  by (auto simp: parse_float_def Let_def strip_idem strip_Nil)

lemma parse_whitespace:
  assumes "strip s = []"
  shows "parse_float s = Inr VNone" "parse_int s = Inr VNone" "parse_tinyint s = Inr VNone"
  using assms by (simp_all add: parse_float_def parse_int_def parse_tinyint_def)

lemma parse_tinyint_of_int:
  "parse_tinyint s =
     (case parse_int s of
        Inl e \<Rightarrow> Inl e
      | Inr v \<Rightarrow> (case v of
                    VInt i \<Rightarrow> if 0 \<le> i \<and> i \<le> 255 then Inr (VInt i) else Inr VNone
                  | _ \<Rightarrow> Inr v))"
  by (auto simp: parse_tinyint_def parse_int_def Let_def split: sum.splits)

lemma digit_val_nonneg: "is_digit c \<Longrightarrow> 0 \<le> digit_val c"
  by (auto simp: is_digit_def digit_val_def)

lemma foldl_digits_nonneg:
  "0 \<le> a \<Longrightarrow> list_all is_digit ds \<Longrightarrow> 0 \<le> foldl (\<lambda>a c. 10 * a + digit_val c) a ds"
proof (induction ds arbitrary: a)
  case Nil
  then show ?case by simp
next
  case (Cons c cs)
  from Cons.prems have "0 \<le> 10 * a + digit_val c"
    using digit_val_nonneg [of c] by simp
  with Cons show ?case by simp
qed

lemma digits_val_nonneg: "list_all is_digit ds \<Longrightarrow> 0 \<le> digits_val ds"
  unfolding digits_val_def by (rule foldl_digits_nonneg) simp_all

lemma list_all_takeWhile: "list_all p (takeWhile p xs)"
  by (induction xs) auto

lemma parse_decimal_sign:
  assumes "parse_decimal s = Some (n, d)"
  shows "0 \<le> n \<and> 0 < d"
proof -
  have nn: "0 \<le> digits_val (takeWhile is_digit s @ takeWhile is_digit t)" for t
    by (rule digits_val_nonneg) (simp add: list_all_takeWhile)
  have n0: "0 \<le> digits_val (takeWhile is_digit s)"
    using nn [of "[]"] by simp
  show ?thesis
    using assms nn n0
    by (auto simp: parse_decimal_def Let_def split: list.splits if_splits option.splits)
qed

lemma round_half_even_nonneg: "0 \<le> n \<Longrightarrow> 0 < d \<Longrightarrow> 0 \<le> round_half_even n d"
  by (auto simp: round_half_even_def Let_def pos_imp_zdiv_nonneg_iff)

lemma to_double_nonneg:
  assumes "to_double neg n d = Fin neg' m p" "0 \<le> n" "0 < d"
  shows "0 \<le> m"
proof (cases "n = 0")
  case True
  with assms show ?thesis by (simp add: to_double_def)
next
  case False
  define q where "q = max (floor_log2 n d) (- 1022) - 52"
  have "0 \<le> round_half_even n (d * 2 ^ nat q)"
    using assms by (intro round_half_even_nonneg) simp_all
  moreover have "0 \<le> round_half_even (n * 2 ^ nat (- q)) d"
    using assms by (intro round_half_even_nonneg) simp_all
  ultimately show ?thesis
    using assms False by (auto simp: to_double_def Let_def q_def split: if_splits)
qed

lemma py_float_nonneg: "py_float s = Inr (Fin neg m p) \<Longrightarrow> 0 \<le> m"
  by (auto simp: py_float_def Let_def split: if_splits prod.splits option.splits
      dest!: parse_decimal_sign dest: to_double_nonneg)

lemma py_int_truncates:
  assumes "0 \<le> m"
  shows "\<exists>i. py_int (Fin neg m p) = Inr i \<and> rat_of_int \<bar>i\<bar> \<le> magnitude m p
           \<and> magnitude m p < rat_of_int \<bar>i\<bar> + 1 \<and> (if neg then i \<le> 0 else 0 \<le> i)"
proof (cases "0 \<le> p")
  case True
  then have "magnitude m p = rat_of_int (m * 2 ^ nat p)"
    by (simp add: magnitude_def pow2_def)
  with True assms show ?thesis by (auto simp: Let_def abs_mult)
next
  case False
  define k :: int where "k = 2 ^ nat (- p)"
  have k: "0 < k" by (simp add: k_def)
  have mag: "magnitude m p = rat_of_int m / rat_of_int k"
    using False by (simp add: magnitude_def pow2_def k_def)
  have fl: "\<lfloor>rat_of_int m / rat_of_int k\<rfloor> = m div k"
    by (rule floor_divide_of_int_eq)
  have a: "0 \<le> m div k" using assms k by (simp add: pos_imp_zdiv_nonneg_iff)
  have le: "rat_of_int (m div k) \<le> magnitude m p"
    unfolding mag fl [symmetric] by (rule of_int_floor_le)
  have lt: "magnitude m p < rat_of_int (m div k) + 1"
    unfolding mag fl [symmetric] by linarith
  show ?thesis using False a le lt by (auto simp: Let_def k_def)
qed

text \<open>
  Where the integer converter returns, the small-integer converter returns the same
  integer when it lies between 0 and 255, and \<open>None\<close> otherwise.
\<close>

lemma parse_tinyint_range:
  "(\<forall>i. parse_int s = Inr (VInt i) \<longrightarrow>
        parse_tinyint s = (if 0 \<le> i \<and> i \<le> 255 then Inr (VInt i) else Inr VNone))
   \<and> (parse_int s = Inr VNone \<longrightarrow> parse_tinyint s = Inr VNone)
   \<and> (\<forall>i. parse_tinyint s = Inr (VInt i) \<longleftrightarrow> parse_int s = Inr (VInt i) \<and> 0 \<le> i \<and> i \<le> 255)
   \<and> parse_tinyint ''255'' = Inr (VInt 255)
   \<and> parse_tinyint ''256'' = Inr VNone
   \<and> parse_tinyint ''-1'' = Inr VNone"
proof -
  have ex: "parse_tinyint ''255'' = Inr (VInt 255)" "parse_tinyint ''256'' = Inr VNone"
    "parse_tinyint ''-1'' = Inr VNone"
    by (simp_all add: conv_eval)
  have "\<forall>i. parse_tinyint s = Inr (VInt i) \<longleftrightarrow> parse_int s = Inr (VInt i) \<and> 0 \<le> i \<and> i \<le> 255"
    by (auto simp: parse_tinyint_of_int split: sum.splits pyval.splits if_splits)
  then show ?thesis using ex by (simp add: parse_tinyint_of_int)
qed

text \<open>
  Where \<open>float\<close> rejects the string or returns a finite number, the integer converter
  returns \<open>None\<close> or the number truncated toward zero: the integer has the sign of the
  float, and its absolute value is the integer part of the magnitude.
\<close>

lemma parse_int_truncates:
  "(strip s = [] \<longrightarrow> parse_int s = Inr VNone)
   \<and> parse_int (strip s) = parse_int s
   \<and> parse_int (comma_to_period s) = parse_int s
   \<and> (\<forall>e. strip s \<noteq> [] \<longrightarrow> py_float (comma_to_period (strip s)) = Inl e \<longrightarrow>
          parse_int s = Inr VNone)
   \<and> (\<forall>neg m p. strip s \<noteq> [] \<longrightarrow> py_float (comma_to_period (strip s)) = Inr (Fin neg m p) \<longrightarrow>
          (\<exists>i. parse_int s = Inr (VInt i) \<and> rat_of_int \<bar>i\<bar> \<le> magnitude m p
                \<and> magnitude m p < rat_of_int \<bar>i\<bar> + 1 \<and> (if neg then i \<le> 0 else 0 \<le> i)))
   \<and> parse_int ''5,00'' = Inr (VInt 5)
   \<and> parse_int ''5.9'' = Inr (VInt 5)"
proof -
  have a: "strip s = [] \<longrightarrow> parse_int s = Inr VNone"
    by (simp add: parse_whitespace)
  have d: "parse_int s = Inr VNone"
    if "strip s \<noteq> []" "py_float (comma_to_period (strip s)) = Inl e" for e
    using that py_float_raises [OF that(2)] by (auto simp: parse_int_def Let_def strip_Nil)
  have e: "\<exists>i. parse_int s = Inr (VInt i) \<and> rat_of_int \<bar>i\<bar> \<le> magnitude m p
                \<and> magnitude m p < rat_of_int \<bar>i\<bar> + 1 \<and> (if neg then i \<le> 0 else 0 \<le> i)"
    if "strip s \<noteq> []" "py_float (comma_to_period (strip s)) = Inr (Fin neg m p)" for neg m p
  proof -
    have "0 \<le> m" using that(2) by (rule py_float_nonneg)
    from py_int_truncates [OF this, of neg p] obtain i where
      i: "py_int (Fin neg m p) = Inr i" "rat_of_int \<bar>i\<bar> \<le> magnitude m p"
        "magnitude m p < rat_of_int \<bar>i\<bar> + 1" "if neg then i \<le> 0 else 0 \<le> i"
      by blast
    have ne: "s \<noteq> []" using that(1) by (auto simp: strip_Nil)
    have "parse_int s = Inr (VInt i)"
      using that ne i(1) by (simp add: parse_int_def Let_def del: py_int.simps)
    with i show ?thesis by blast
  qed
  have ex: "parse_int ''5,00'' = Inr (VInt 5)" "parse_int ''5.9'' = Inr (VInt 5)"
    by (simp_all add: conv_eval)
  show ?thesis
    using a d e ex by (simp only: parse_int_strip parse_int_comma) blast
qed

text \<open>The converters raise on an infinite float, and on nothing else.\<close>

lemma parse_int_raises_iff:
  "(\<exists>e. parse_int s = Inl e) \<longleftrightarrow>
     strip s \<noteq> [] \<and> (py_float (comma_to_period (strip s)) = Inr PosInf
                      \<or> py_float (comma_to_period (strip s)) = Inr NegInf)"
proof (cases "strip s = []")
  case True
  then show ?thesis by (simp add: parse_whitespace)
next
  case False
  then have ne: "s \<noteq> []" by (auto simp: strip_Nil)
  show ?thesis
  proof (cases "py_float (comma_to_period (strip s))")
    case (Inl e)
    with False ne py_float_raises [OF Inl] show ?thesis
      by (simp add: parse_int_def Let_def)
  next
    case (Inr x)
    with False ne show ?thesis
      by (cases x) (simp_all add: parse_int_def Let_def)
  qed
qed

lemma parse_tinyint_raises_iff:
  "(\<exists>e. parse_tinyint s = Inl e) \<longleftrightarrow> (\<exists>e. parse_int s = Inl e)"
  by (auto simp: parse_tinyint_of_int split: sum.splits pyval.splits if_splits)

lemma parse_float_of_float:
  assumes "strip s \<noteq> []" "py_float (comma_to_period (strip s)) = Inr x"
  shows "parse_float s = Inr (VFloat x)"
proof -
  from assms(1) have "s \<noteq> []" by (auto simp: strip_Nil)
  with assms show ?thesis by (simp add: parse_float_def Let_def)
qed

section \<open>Decimal literals\<close>

lemma is_digit_chars:
  assumes "is_digit c"
  shows "\<not> isspace c" "\<not> is_float_space c" "c \<noteq> CHR ''_''" "c \<noteq> CHR '',''" "c \<noteq> CHR ''.''"
    "c \<noteq> CHR ''-''" "c \<noteq> CHR ''+''"
  using assms by (auto simp: is_digit_def isspace_def is_float_space_def)

lemma strip_with_self:
  assumes "\<forall>c \<in> set xs. \<not> p c"
  shows "strip_with p xs = xs"
proof -
  have d: "dropWhile p ys = ys" if "\<forall>c \<in> set ys. \<not> p c" for ys
    using that by (cases ys) auto
  have "dropWhile p (rev xs) = rev xs" using assms by (intro d) simp
  with d [OF assms] show ?thesis by (simp add: strip_with_def)
qed

lemma underscores_ok_none:
  "CHR ''_'' \<notin> set xs \<Longrightarrow> prev \<noteq> CHR ''_'' \<Longrightarrow> underscores_ok prev xs"
  by (induction xs arbitrary: prev) auto

lemma literal_chars:
  assumes "list_all is_digit ip" "list_all is_digit fp" "sg \<in> {[], ''+'', ''-''}"
    and "c \<in> set (sg @ ip @ ''.'' @ fp)"
  shows "\<not> isspace c" "\<not> is_float_space c" "c \<noteq> CHR ''_''" "c \<noteq> CHR '',''"
proof -
  from assms consider "is_digit c" | "c = CHR ''.''" | "c = CHR ''+''" | "c = CHR ''-''"
    by (auto simp: list_all_iff)
  then show "\<not> isspace c" "\<not> is_float_space c" "c \<noteq> CHR ''_''" "c \<noteq> CHR '',''"
    by (cases; auto simp: isspace_def is_float_space_def dest: is_digit_chars)+
qed

lemma comma_to_period_digits: "list_all is_digit ds \<Longrightarrow> comma_to_period ds = ds"
  unfolding comma_to_period_def replace_char_def
  by (rule map_idI) (auto simp: list_all_iff dest: is_digit_chars)

lemma comma_to_period_literal:
  assumes "list_all is_digit ip" "list_all is_digit fp" "sg \<in> {[], ''+'', ''-''}"
    and "sep = CHR '','' \<or> sep = CHR ''.''"
  shows "comma_to_period (sg @ ip @ [sep] @ fp) = sg @ ip @ ''.'' @ fp"
proof -
  have a: "comma_to_period (xs @ ys) = comma_to_period xs @ comma_to_period ys" for xs ys
    by (simp add: comma_to_period_def replace_char_def)
  have s: "comma_to_period sg = sg" "comma_to_period [sep] = ''.''"
    using assms(3,4) by (auto simp: comma_to_period_def replace_char_def)
  show ?thesis
    by (simp only: a s comma_to_period_digits [OF assms(1)] comma_to_period_digits [OF assms(2)])
qed

lemma take_sign_literal:
  assumes "list_all is_digit ip" "sg \<in> {[], ''+'', ''-''}"
  shows "take_sign (sg @ ip @ ''.'' @ fp) = (sg = ''-'', ip @ ''.'' @ fp)"
proof (cases "sg = []")
  case False
  with assms(2) show ?thesis by auto
next
  case True
  show ?thesis
  proof (cases ip)
    case Nil
    with True show ?thesis by simp
  next
    case (Cons c cs)
    with assms(1) have "is_digit c" by simp
    from is_digit_chars(6,7) [OF this] True Cons show ?thesis by simp
  qed
qed

lemma lower_literal: "CHR ''.'' \<in> set (map lower (ip @ ''.'' @ fp))"
  by (simp add: lower_def)

lemma literal_not_inf_nan:
  "map lower (ip @ ''.'' @ fp) \<noteq> ''inf''" "map lower (ip @ ''.'' @ fp) \<noteq> ''infinity''"
  "map lower (ip @ ''.'' @ fp) \<noteq> ''nan''"
proof -
  have "map lower (ip @ ''.'' @ fp) \<noteq> t" if "CHR ''.'' \<notin> set t" for t
    using that lower_literal [of ip fp] by metis
  then show "map lower (ip @ ''.'' @ fp) \<noteq> ''inf''"
    "map lower (ip @ ''.'' @ fp) \<noteq> ''infinity''" "map lower (ip @ ''.'' @ fp) \<noteq> ''nan''"
    by simp_all
qed

lemma parse_decimal_literal:
  assumes "list_all is_digit ip" "list_all is_digit fp" "ip @ fp \<noteq> []"
  shows "parse_decimal (ip @ ''.'' @ fp) = Some (digits_val (ip @ fp), 10 ^ length fp)"
proof -
  have nd: "\<not> is_digit (CHR ''.'')" by (simp add: is_digit_def)
  have ip: "\<And>x. x \<in> set ip \<Longrightarrow> is_digit x" using assms(1) by (simp add: list_all_iff)
  have fp: "\<And>x. x \<in> set fp \<Longrightarrow> is_digit x" using assms(2) by (simp add: list_all_iff)
  have t: "takeWhile is_digit (ip @ CHR ''.'' # fp) = ip"
    using nd by (simp add: takeWhile_append2 [OF ip])
  have d: "dropWhile is_digit (ip @ CHR ''.'' # fp) = CHR ''.'' # fp"
    using nd by (simp add: dropWhile_append2 [OF ip])
  have tf: "takeWhile is_digit fp = fp" using fp by (simp add: takeWhile_eq_all_conv)
  have df: "dropWhile is_digit fp = []" using fp by simp
  have e: "parse_decimal (ip @ ''.'' @ fp) =
      (if ip = [] \<and> fp = [] then None
       else if 0 \<le> - int (length fp) then Some (digits_val (ip @ fp) * 10 ^ nat (- int (length fp)), 1)
       else Some (digits_val (ip @ fp), 10 ^ nat (int (length fp))))"
    by (simp add: parse_decimal_def parse_exponent_def t d tf df Let_def)
  show ?thesis
    unfolding e using assms(3) by (cases "fp = []") simp_all
qed

lemma py_float_literal:
  assumes "list_all is_digit ip" "list_all is_digit fp" "ip @ fp \<noteq> []"
    and "sg \<in> {[], ''+'', ''-''}"
  shows "py_float (sg @ ip @ ''.'' @ fp)
           = Inr (to_double (sg = ''-'') (digits_val (ip @ fp)) (10 ^ length fp))"
proof -
  let ?l = "sg @ ip @ ''.'' @ fp"
  note ch = literal_chars [OF assms(1,2,4)]
  have u: "underscores_ok (CHR 0x00) ?l"
    by (rule underscores_ok_none) (use ch(3) in auto)
  have f: "filter (\<lambda>c. c \<noteq> CHR ''_'') ?l = ?l"
    by (rule filter_True) (use ch(3) in blast)
  have s: "strip_with is_float_space ?l = ?l"
    by (rule strip_with_self) (use ch(2) in blast)
  show ?thesis
    unfolding py_float_def
    by (simp only: u f s Let_def take_sign_literal [OF assms(1,4)] literal_not_inf_nan
        parse_decimal_literal [OF assms(1,2,3)] simp_thms if_True if_False prod.case
        option.case)
qed

lemma parse_float_literal:
  assumes "list_all is_digit ip" "list_all is_digit fp" "ip @ fp \<noteq> []"
    and "sg \<in> {[], ''+'', ''-''}" and "sep = CHR '','' \<or> sep = CHR ''.''"
  shows "parse_float (sg @ ip @ [sep] @ fp)
           = Inr (VFloat (to_double (sg = ''-'') (digits_val (ip @ fp)) (10 ^ length fp)))"
proof -
  let ?s = "sg @ ip @ [sep] @ fp"
  have ne: "?s \<noteq> []" by simp
  have c: "comma_to_period ?s = sg @ ip @ ''.'' @ fp"
    by (rule comma_to_period_literal [OF assms(1,2,4,5)])
  have "strip (sg @ ip @ ''.'' @ fp) = sg @ ip @ ''.'' @ fp"
    unfolding strip_def
    by (rule strip_with_self) (use literal_chars(1) [OF assms(1,2,4)] in blast)
  then have "comma_to_period (strip ?s) = sg @ ip @ ''.'' @ fp"
    by (simp only: strip_comma_to_period [symmetric] c)
  moreover from this have "strip ?s \<noteq> []"
    by (auto simp: comma_to_period_def replace_char_def)
  ultimately show ?thesis
    using ne py_float_literal [OF assms(1,2,3,4)] by (simp add: parse_float_def Let_def)
qed

section \<open>Properties of the row validator\<close>

lemma get_raw_Inr: "get_raw r c = Inr raw \<Longrightarrow> raw = raw_text r c \<and> r c \<noteq> Some CNone"
  by (auto simp: get_raw_def raw_text_def split: option.splits cell.splits)

lemma get_raw_text: "r c \<noteq> Some CNone \<Longrightarrow> get_raw r c = Inr (raw_text r c)"
  by (auto simp: get_raw_def raw_text_def split: option.splits cell.splits)

lemma column_step_Inr:
  assumes "column_step r (c, d) st = Inr st'"
  shows "r c \<noteq> Some CNone
    \<and> raw_values st' = AList.update c (raw_text r c) (raw_values st)
    \<and> converted st' = AList.update c (column_value d (raw_text r c)) (converted st)
    \<and> errors st' = errors st @ column_errors c d (raw_text r c)"
proof -
  from assms obtain raw where g: "get_raw r c = Inr raw"
    by (auto simp: column_step_def split: sum.splits)
  from get_raw_Inr [OF g] have raw: "raw = raw_text r c" "r c \<noteq> Some CNone" by simp_all
  show ?thesis
    using assms g raw
    by (cases "converter d (raw_text r c)")
       (auto simp: column_step_def column_value_def column_errors_def Let_def)
qed

lemma column_step_total:
  "r c \<noteq> Some CNone \<Longrightarrow> \<exists>st'. column_step r (c, d) st = Inr st'"
  by (cases "converter d (raw_text r c)")
     (simp_all add: column_step_def get_raw_text Let_def)

lemma validate_cols_total:
  "\<forall>cd \<in> set cds. r (fst cd) \<noteq> Some CNone \<Longrightarrow> \<exists>st'. validate_cols r cds st = Inr st'"
proof (induction cds arbitrary: st)
  case Nil
  then show ?case by simp
next
  case (Cons cd cds)
  obtain c d where cd: "cd = (c, d)" by (cases cd)
  from Cons.prems cd have "r c \<noteq> Some CNone" by simp
  then have "\<exists>st1. column_step r (c, d) st = Inr st1" by (rule column_step_total)
  then obtain st1 where "column_step r (c, d) st = Inr st1"
    by blast
  moreover from Cons.IH [of st1] Cons.prems obtain st' where "validate_cols r cds st1 = Inr st'"
    by auto
  ultimately show ?case by (simp add: cd)
qed

lemma validate_cols_errors:
  "validate_cols r cds st = Inr st' \<Longrightarrow>
     errors st' = errors st @ concat (map (\<lambda>cd. column_errors (fst cd) (snd cd) (raw_text r (fst cd))) cds)"
proof (induction cds arbitrary: st)
  case Nil
  then show ?case by simp
next
  case (Cons cd cds)
  obtain c d where cd: "cd = (c, d)" by (cases cd)
  from Cons.prems cd obtain st1 where
    s1: "column_step r (c, d) st = Inr st1" and s2: "validate_cols r cds st1 = Inr st'"
    by (auto split: sum.splits)
  from column_step_Inr [OF s1] Cons.IH [OF s2] show ?case by (simp add: cd)
qed

lemma validate_cols_cells:
  "validate_cols r cds st = Inr st' \<Longrightarrow> cd \<in> set cds \<Longrightarrow> r (fst cd) \<noteq> Some CNone"
proof (induction cds arbitrary: st)
  case Nil
  then show ?case by simp
next
  case (Cons x cds)
  obtain c d where x: "x = (c, d)" by (cases x)
  from Cons.prems x obtain st1 where
    s1: "column_step r (c, d) st = Inr st1" and s2: "validate_cols r cds st1 = Inr st'"
    by (auto split: sum.splits)
  from column_step_Inr [OF s1] Cons.IH [OF s2] Cons.prems(2) show ?case
    by (auto simp: x)
qed

lemma validate_cols_frame:
  "validate_cols r cds st = Inr st' \<Longrightarrow> k \<notin> fst ` set cds \<Longrightarrow>
     map_of (converted st') k = map_of (converted st) k
     \<and> map_of (raw_values st') k = map_of (raw_values st) k"
proof (induction cds arbitrary: st)
  case Nil
  then show ?case by simp
next
  case (Cons x cds)
  obtain c d where x: "x = (c, d)" by (cases x)
  from Cons.prems x obtain st1 where
    s1: "column_step r (c, d) st = Inr st1" and s2: "validate_cols r cds st1 = Inr st'"
    by (auto split: sum.splits)
  from Cons.prems(2) x have k: "k \<noteq> c" "k \<notin> fst ` set cds" by auto
  from column_step_Inr [OF s1] k(1) have
    "map_of (converted st1) k = map_of (converted st) k"
    "map_of (raw_values st1) k = map_of (raw_values st) k"
    by (simp_all add: update_conv')
  with Cons.IH [OF s2 k(2)] show ?case by simp
qed

lemma validate_cols_stored:
  "validate_cols r cds st = Inr st' \<Longrightarrow> distinct (map fst cds) \<Longrightarrow> (c, d) \<in> set cds \<Longrightarrow>
     map_of (converted st') c = Some (column_value d (raw_text r c))
     \<and> map_of (raw_values st') c = Some (raw_text r c)"
proof (induction cds arbitrary: st)
  case Nil
  then show ?case by simp
next
  case (Cons x cds)
  obtain c0 d0 where x: "x = (c0, d0)" by (cases x)
  from Cons.prems x obtain st1 where
    s1: "column_step r (c0, d0) st = Inr st1" and s2: "validate_cols r cds st1 = Inr st'"
    by (auto split: sum.splits)
  from Cons.prems(2) x have dist: "c0 \<notin> fst ` set cds" "distinct (map fst cds)" by auto
  show ?case
  proof (cases "(c, d) \<in> set cds")
    case True
    from Cons.IH [OF s2 dist(2) True] show ?thesis .
  next
    case False
    with Cons.prems(3) x have e: "c = c0" "d = d0" by auto
    from column_step_Inr [OF s1] validate_cols_frame [OF s2 dist(1)] show ?thesis
      by (simp add: e update_conv')
  qed
qed

lemma column_names: "map fst COLUMN_DEFS = INSERT_COLUMNS"
  by (simp add: COLUMN_DEFS_def INSERT_COLUMNS_def)

lemma insert_columns_distinct: "distinct INSERT_COLUMNS"
  by (simp add: INSERT_COLUMNS_def)

lemma column_names_distinct: "distinct (map fst COLUMN_DEFS)"
  by (simp only: column_names insert_columns_distinct)

lemma column_names_set: "fst ` set COLUMN_DEFS = set INSERT_COLUMNS"
  by (simp only: column_names [symmetric] set_map)

lemma insert_columns_are_columns: "set INSERT_COLUMNS \<subseteq> fst ` set COLUMN_DEFS"
  by (simp only: column_names_set subset_refl)

lemma required_are_insert_columns: "set REQUIRED_FIELDS \<subseteq> set INSERT_COLUMNS"
  by (simp add: REQUIRED_FIELDS_def INSERT_COLUMNS_def)

lemma required_are_columns: "set REQUIRED_FIELDS \<subseteq> fst ` set COLUMN_DEFS"
  by (simp only: column_names_set required_are_insert_columns)

lemma validate_row_Inr:
  assumes "validate_and_convert_row n r = Inr (conv, valid, msg, raws)"
  shows "valid \<longleftrightarrow>
           (\<forall>cd \<in> set COLUMN_DEFS. column_errors (fst cd) (snd cd) (raw_text r (fst cd)) = [])"
    and "msg = (let errs = concat (map (\<lambda>cd. column_errors (fst cd) (snd cd)
                                            (raw_text r (fst cd))) COLUMN_DEFS)
                in if errs \<noteq> [] then Some (join [CHR 0x0A] errs) else None)"
    and "(c, d) \<in> set COLUMN_DEFS \<Longrightarrow>
           map_of conv c = Some (column_value d (raw_text r c))
           \<and> map_of raws c = Some (raw_text r c) \<and> r c \<noteq> Some CNone"
proof -
  from assms obtain st where
    v: "validate_cols r COLUMN_DEFS \<lparr>converted = [], errors = [], raw_values = []\<rparr> = Inr st"
    and res: "conv = converted st" "valid = (errors st = [])"
      "msg = (if errors st \<noteq> [] then Some (join [CHR 0x0A] (errors st)) else None)"
      "raws = raw_values st"
    by (auto simp: validate_and_convert_row_def Let_def split: sum.splits)
  have errs: "errors st = concat (map (\<lambda>cd. column_errors (fst cd) (snd cd)
                                      (raw_text r (fst cd))) COLUMN_DEFS)"
    using validate_cols_errors [OF v] by simp
  show "valid \<longleftrightarrow>
           (\<forall>cd \<in> set COLUMN_DEFS. column_errors (fst cd) (snd cd) (raw_text r (fst cd)) = [])"
    unfolding res errs by simp
  show "msg = (let errs = concat (map (\<lambda>cd. column_errors (fst cd) (snd cd)
                                            (raw_text r (fst cd))) COLUMN_DEFS)
                in if errs \<noteq> [] then Some (join [CHR 0x0A] errs) else None)"
    unfolding res errs Let_def ..
  show "map_of conv c = Some (column_value d (raw_text r c))
           \<and> map_of raws c = Some (raw_text r c) \<and> r c \<noteq> Some CNone"
    if "(c, d) \<in> set COLUMN_DEFS"
    using validate_cols_stored [OF v column_names_distinct that]
      validate_cols_cells [OF v that]
    by (simp add: res)
qed

lemma validate_row_total:
  assumes "\<forall>cd \<in> set COLUMN_DEFS. r (fst cd) \<noteq> Some CNone"
  shows "\<exists>res. validate_and_convert_row n r = Inr res"
proof -
  from validate_cols_total [OF assms] obtain st where
    "validate_cols r COLUMN_DEFS \<lparr>converted = [], errors = [], raw_values = []\<rparr> = Inr st"
    by blast
  then show ?thesis by (simp add: validate_and_convert_row_def Let_def)
qed

lemma column_errors_Nil:
  "column_errors c d raw = [] \<longleftrightarrow>
     (\<exists>v. converter d raw = Inr v \<and> (c \<in> set REQUIRED_FIELDS \<longrightarrow> v \<noteq> VNone))"
  by (cases "converter d raw") (auto simp: column_errors_def column_value_def)

text \<open>
  What the validator does: the row is valid iff no required field converted to \<open>None\<close>
  and the converter of no other column raised an exception; the value a converter
  returns is the value stored. The only converter of a column that is not required and
  that can raise is the one of the floor, so with a floor whose converter returns, the
  row is valid iff no required field converted to \<open>None\<close>.
\<close>

lemma row_valid_iff:
  assumes "validate_and_convert_row n r = Inr (conv, valid, msg, raws)"
  shows "(valid \<longleftrightarrow>
            (\<forall>f \<in> set REQUIRED_FIELDS. map_of conv f \<noteq> Some VNone)
            \<and> (\<forall>cd \<in> set COLUMN_DEFS. fst cd \<notin> set REQUIRED_FIELDS \<longrightarrow>
                  (\<exists>v. converter (snd cd) (raw_text r (fst cd)) = Inr v)))
         \<and> (\<forall>cd \<in> set COLUMN_DEFS. \<forall>v. converter (snd cd) (raw_text r (fst cd)) = Inr v \<longrightarrow>
               map_of conv (fst cd) = Some v)"
proof -
  note st = validate_row_Inr(3) [OF assms]
  have stored: "map_of conv c = Some v"
    if "(c, d) \<in> set COLUMN_DEFS" "converter d (raw_text r c) = Inr v" for c d v
    using st [OF that(1)] that(2) by (simp add: column_value_def)
  have ok: "column_errors c d (raw_text r c) = [] \<longleftrightarrow>
      (if c \<in> set REQUIRED_FIELDS then map_of conv c \<noteq> Some VNone
       else \<exists>v. converter d (raw_text r c) = Inr v)"
    if "(c, d) \<in> set COLUMN_DEFS" for c d
    using st [OF that]
    by (cases "converter d (raw_text r c)") (auto simp: column_errors_def column_value_def)
  have "valid \<longleftrightarrow> (\<forall>cd \<in> set COLUMN_DEFS.
      if fst cd \<in> set REQUIRED_FIELDS then map_of conv (fst cd) \<noteq> Some VNone
      else \<exists>v. converter (snd cd) (raw_text r (fst cd)) = Inr v)"
    unfolding validate_row_Inr(1) [OF assms] using ok by auto
  also have "\<dots> \<longleftrightarrow> (\<forall>f \<in> set REQUIRED_FIELDS. map_of conv f \<noteq> Some VNone)
            \<and> (\<forall>cd \<in> set COLUMN_DEFS. fst cd \<notin> set REQUIRED_FIELDS \<longrightarrow>
                  (\<exists>v. converter (snd cd) (raw_text r (fst cd)) = Inr v))"
    using required_are_columns by (auto split: if_splits)
  finally show ?thesis using stored by auto
qed

lemma row_valid_iff_floor:
  assumes "validate_and_convert_row n r = Inr (conv, valid, msg, raws)"
    and "parse_tinyint (raw_text r ''floor'') = Inr v"
  shows "valid \<longleftrightarrow> (\<forall>f \<in> set REQUIRED_FIELDS. map_of conv f \<noteq> Some VNone)"
proof -
  have "\<forall>cd \<in> set COLUMN_DEFS. fst cd \<notin> set REQUIRED_FIELDS \<longrightarrow>
          (\<exists>v. converter (snd cd) (raw_text r (fst cd)) = Inr v)"
    using assms(2) parse_float_returns str50_returns
    by (simp add: COLUMN_DEFS_def REQUIRED_FIELDS_def)
  with row_valid_iff [OF assms(1)] show ?thesis by blast
qed

section \<open>Properties of the batch loader\<close>

lemma lookup_all_total:
  "\<forall>k \<in> set ks. map_of d k \<noteq> None \<Longrightarrow> \<exists>vs. lookup_all d ks = Inr vs"
  by (induction ks) auto

lemma validated_row_values:
  assumes "validate_and_convert_row n r = Inr (conv, valid, msg, raws)"
  shows "\<exists>vs. lookup_all conv INSERT_COLUMNS = Inr vs"
proof (rule lookup_all_total, rule ballI)
  fix k assume "k \<in> set INSERT_COLUMNS"
  with insert_columns_are_columns obtain d where "(k, d) \<in> set COLUMN_DEFS" by auto
  from validate_row_Inr(3) [OF assms this] show "map_of conv k \<noteq> None" by simp
qed

lemma insert_loop_step:
  assumes "insert_loop exec ((n, r) # rest) st = Inr st'"
  shows "\<exists>conv valid msg raws st1.
           validate_and_convert_row n r = Inr (conv, valid, msg, raws)
           \<and> insert_loop exec rest st1 = Inr st'
           \<and> inserted st1 + rejected st1 = inserted st + rejected st + 1
           \<and> (if valid then rejected st \<le> rejected st1 else rejected st1 = rejected st + 1)
           \<and> rejected_samples st1 =
               (if valid \<or> \<not> length (rejected_samples st) < 20 then rejected_samples st
                else rejected_samples st
                       @ [\<lparr>sample_row = n, sample_errors = msg, sample_raw_values = raws\<rparr>])"
proof -
  let ?P = "\<lambda>conv valid msg raws st1.
           validate_and_convert_row n r = Inr (conv, valid, msg, raws)
           \<and> insert_loop exec rest st1 = Inr st'
           \<and> inserted st1 + rejected st1 = inserted st + rejected st + 1
           \<and> (if valid then rejected st \<le> rejected st1 else rejected st1 = rejected st + 1)
           \<and> rejected_samples st1 =
               (if valid \<or> \<not> length (rejected_samples st) < 20 then rejected_samples st
                else rejected_samples st
                       @ [\<lparr>sample_row = n, sample_errors = msg, sample_raw_values = raws\<rparr>])"
  from assms obtain res where "validate_and_convert_row n r = Inr res"
    by (cases "validate_and_convert_row n r") simp_all
  moreover obtain conv valid msg raws where "res = (conv, valid, msg, raws)"
    by (cases res)
  ultimately have v: "validate_and_convert_row n r = Inr (conv, valid, msg, raws)"
    by simp
  show ?thesis
  proof (cases valid)
    case False
    define st1 where "st1 = st\<lparr>rejected := rejected st + 1,
        rejected_samples :=
          (if length (rejected_samples st) < 20
           then rejected_samples st
                  @ [\<lparr>sample_row = n, sample_errors = msg, sample_raw_values = raws\<rparr>]
           else rejected_samples st)\<rparr>"
    from assms v False have "insert_loop exec rest st1 = Inr st'"
      by (simp add: st1_def)
    then have "?P conv valid msg raws st1"
      using v False by (simp add: st1_def)
    then show ?thesis by blast
  next
    case True
    from assms v True obtain vals where l: "lookup_all conv INSERT_COLUMNS = Inr vals"
      by (cases "lookup_all conv INSERT_COLUMNS") simp_all
    obtain db eo where e: "exec (cursor st) vals = (db, eo)"
      by (cases "exec (cursor st) vals")
    define st1 where "st1 = (case eo of
        None \<Rightarrow> st\<lparr>cursor := db, inserted := inserted st + 1\<rparr>
      | Some x \<Rightarrow> st\<lparr>cursor := db, rejected := rejected st + 1\<rparr>)"
    from assms v True l e have "insert_loop exec rest st1 = Inr st'"
      by (cases eo) (simp_all add: st1_def)
    then have "?P conv valid msg raws st1"
      using v True by (cases eo) (simp_all add: st1_def)
    then show ?thesis by blast
  qed
qed

lemma insert_loop_counts:
  "insert_loop exec rows st = Inr st' \<Longrightarrow>
     inserted st' + rejected st' = inserted st + rejected st + length rows"
proof (induction rows arbitrary: st)
  case Nil
  then show ?case by simp
next
  case (Cons x rows)
  obtain n r where x: "x = (n, r)" by (cases x)
  from insert_loop_step [OF Cons.prems [unfolded x]] obtain st1 where
    "insert_loop exec rows st1 = Inr st'"
    "inserted st1 + rejected st1 = inserted st + rejected st + 1"
    by blast
  with Cons.IH [of st1] show ?case by simp
qed

lemma insert_loop_samples:
  "insert_loop exec rows st = Inr st' \<Longrightarrow> length (rejected_samples st) \<le> 20 \<Longrightarrow>
     rejected_samples st' = take 20 (rejected_samples st @ invalid_row_samples rows)"
proof (induction rows arbitrary: st)
  case Nil
  then show ?case by simp
next
  case (Cons x rows)
  obtain n r where x: "x = (n, r)" by (cases x)
  from insert_loop_step [OF Cons.prems(1) [unfolded x]] obtain conv valid msg raws st1 where
    v: "validate_and_convert_row n r = Inr (conv, valid, msg, raws)"
    and l: "insert_loop exec rows st1 = Inr st'"
    and s: "rejected_samples st1 =
               (if valid \<or> \<not> length (rejected_samples st) < 20 then rejected_samples st
                else rejected_samples st
                       @ [\<lparr>sample_row = n, sample_errors = msg, sample_raw_values = raws\<rparr>])"
    by blast
  from s Cons.prems(2) have len: "length (rejected_samples st1) \<le> 20" by auto
  from Cons.IH [OF l len] have
    ih: "rejected_samples st' = take 20 (rejected_samples st1 @ invalid_row_samples rows)" .
  have inv: "invalid_row_samples (x # rows) =
      (if valid then invalid_row_samples rows
       else \<lparr>sample_row = n, sample_errors = msg, sample_raw_values = raws\<rparr>
              # invalid_row_samples rows)"
    using v by (simp add: x)
  show ?case
  proof (cases "valid \<or> length (rejected_samples st) < 20")
    case True
    with s inv have "rejected_samples st1 @ invalid_row_samples rows
        = rejected_samples st @ invalid_row_samples (x # rows)"
      by auto
    with ih show ?thesis by (simp only:)
  next
    case False
    with Cons.prems(2) have "length (rejected_samples st) = 20" by simp
    with ih s False show ?thesis by simp
  qed
qed

lemma insert_loop_total:
  assumes "\<forall>x \<in> set rows. \<forall>cd \<in> set COLUMN_DEFS. snd x (fst cd) \<noteq> Some CNone"
  shows "\<exists>st'. insert_loop exec rows st = Inr st'"
  using assms
proof (induction rows arbitrary: st)
  case Nil
  then show ?case by simp
next
  case (Cons x rows)
  obtain n r where x: "x = (n, r)" by (cases x)
  from Cons.prems x have "\<forall>cd \<in> set COLUMN_DEFS. r (fst cd) \<noteq> Some CNone" by simp
  from validate_row_total [OF this, of n] obtain res where
    "validate_and_convert_row n r = Inr res" by blast
  moreover obtain conv valid msg raws where "res = (conv, valid, msg, raws)"
    by (cases res)
  ultimately have v: "validate_and_convert_row n r = Inr (conv, valid, msg, raws)"
    by simp
  from validated_row_values [OF v] obtain vals where
    l: "lookup_all conv INSERT_COLUMNS = Inr vals" by blast
  obtain db eo where e: "exec (cursor st) vals = (db, eo)"
    by (cases "exec (cursor st) vals")
  have ih: "\<exists>st'. insert_loop exec rows st1 = Inr st'" for st1
    using Cons.IH [of st1] Cons.prems by simp
  show ?case
  proof (cases valid)
    case False
    with v ih show ?thesis by (simp add: x)
  next
    case True
    with v l e ih show ?thesis by (cases eo) (simp_all add: x)
  qed
qed

lemma insert_loop_rejected:
  "insert_loop exec rows st = Inr st' \<Longrightarrow>
     rejected st + length (invalid_row_samples rows) \<le> rejected st'"
proof (induction rows arbitrary: st)
  case Nil
  then show ?case by simp
next
  case (Cons x rows)
  obtain n r where x: "x = (n, r)" by (cases x)
  from insert_loop_step [OF Cons.prems [unfolded x]] obtain conv valid msg raws st1 where
    v: "validate_and_convert_row n r = Inr (conv, valid, msg, raws)"
    and l: "insert_loop exec rows st1 = Inr st'"
    and s: "if valid then rejected st \<le> rejected st1 else rejected st1 = rejected st + 1"
    by blast
  from Cons.IH [OF l] v s show ?case
    by (cases valid) (simp_all add: x)
qed

lemma invalid_row_samples_origin:
  "smp \<in> set (invalid_row_samples rows) \<Longrightarrow>
     \<exists>n r conv msg raws. (n, r) \<in> set rows
       \<and> validate_and_convert_row n r = Inr (conv, False, msg, raws)
       \<and> smp = \<lparr>sample_row = n, sample_errors = msg, sample_raw_values = raws\<rparr>"
proof (induction rows)
  case Nil
  then show ?case by simp
next
  case (Cons x rows)
  obtain n r where x: "x = (n, r)" by (cases x)
  show ?case
  proof (cases "smp \<in> set (invalid_row_samples rows)")
    case True
    from Cons.IH [OF this] obtain n' r' conv msg raws where
      o: "(n', r') \<in> set rows"
        "validate_and_convert_row n' r' = Inr (conv, False, msg, raws)"
        "smp = \<lparr>sample_row = n', sample_errors = msg, sample_raw_values = raws\<rparr>"
      by blast
    from o(1) have "(n', r') \<in> set (x # rows)" by simp
    with o(2,3) show ?thesis by blast
  next
    case False
    with Cons.prems x obtain conv msg raws where
      "validate_and_convert_row n r = Inr (conv, False, msg, raws)"
      "smp = \<lparr>sample_row = n, sample_errors = msg, sample_raw_values = raws\<rparr>"
      by (auto split: sum.splits if_splits)
    moreover have "(n, r) \<in> set (x # rows)" by (simp add: x)
    ultimately show ?thesis by blast
  qed
qed

lemma insert_rows_Inr:
  assumes "insert_rows exec commit db rows = Inr st"
  shows "\<exists>st0. insert_loop exec rows
                 \<lparr>inserted = 0, rejected = 0, rejected_samples = [], cursor = db\<rparr> = Inr st0
           \<and> inserted st = inserted st0 \<and> rejected st = rejected st0
           \<and> rejected_samples st = rejected_samples st0"
  using assms by (auto simp: insert_rows_def split: sum.splits)

lemma insert_rows_total:
  assumes "\<forall>x \<in> set rows. \<forall>cd \<in> set COLUMN_DEFS. snd x (fst cd) \<noteq> Some CNone"
    and "\<And>d. \<exists>d'. commit d = Inr d'"
  shows "\<exists>st. insert_rows exec commit db rows = Inr st"
proof -
  from insert_loop_total [OF assms(1)] obtain st0 where
    "insert_loop exec rows \<lparr>inserted = 0, rejected = 0, rejected_samples = [], cursor = db\<rparr>
       = Inr st0" by blast
  moreover from assms(2) obtain d' where "commit (cursor st0) = Inr d'" by blast
  ultimately show ?thesis by (simp add: insert_rows_def)
qed

lemmas row_eval = validate_and_convert_row_def COLUMN_DEFS_def REQUIRED_FIELDS_def
  column_step_def get_raw_def fault_message_def missing_message_def conv_eval

lemma empty_row_invalid:
  "\<exists>conv msg raws. validate_and_convert_row n Map.empty = Inr (conv, False, msg, raws)"
  by (simp add: row_eval)

lemma valid_row_example:
  "validate_and_convert_row n example_row
   = Inr ([(''price'', VFloat (Fin False 4503599627370496 (- 52))),
       (''price_per_meter'', VFloat (Fin False 4503599627370496 (- 52))),
       (''offer_type'', VStr ''a''), (''floor'', VNone), (''area'', VNone),
       (''rooms'', VInt 1), (''offer_type_of_building'', VNone),
       (''market'', VStr ''a''), (''city_name'', VStr ''a''),
       (''voivodeship'', VStr ''a''), (''month'', VNone),
       (''year'', VInt 1), (''population'', VInt 1),
       (''longitude'', VFloat (Fin False 4503599627370496 (- 52))),
       (''latitude'', VFloat (Fin False 4503599627370496 (- 52)))],
      True, None,
      [(''price'', ''1''), (''price_per_meter'', ''1''),
       (''offer_type'', ''a''), (''floor'', ''x''), (''area'', []),
       (''rooms'', ''1''), (''offer_type_of_building'', []),
       (''market'', ''a''), (''city_name'', ''a''),
       (''voivodeship'', ''a''), (''month'', []), (''year'', ''1''),
       (''population'', ''1''), (''longitude'', ''1''),
       (''latitude'', ''1'')])"
  by (simp add: row_eval example_row_def)

section \<open>Claims about the batch loader\<close>

text \<open>
  C1: when \<open>insert_rows\<close> returns, the count of inserted rows and the count of rejected
  rows add up to the number of input rows: each pass of the loop adds one to exactly
  one of the two counts.
\<close>

theorem insert_rows_counts:
  assumes "insert_rows exec commit db rows = Inr st"
  shows "inserted st + rejected st = length rows"
proof -
  from insert_rows_Inr [OF assms] obtain st0 where
    "insert_loop exec rows \<lparr>inserted = 0, rejected = 0, rejected_samples = [], cursor = db\<rparr>
       = Inr st0"
    "inserted st = inserted st0" "rejected st = rejected st0"
    by blast
  with insert_loop_counts [of exec rows _ st0] show ?thesis by simp
qed

theorem insert_rows_counts_witness:
  "\<exists>st. insert_rows (\<lambda>db vals. (db, None)) Inr ()
         [(2, example_row), (3, Map.empty)] = Inr st
       \<and> inserted st = 1 \<and> rejected st = 1 \<and> inserted st + rejected st = 2"
proof -
  from empty_row_invalid [of 3] obtain conv msg raws where
    e: "validate_and_convert_row 3 Map.empty = Inr (conv, False, msg, raws)" by blast
  have run: "insert_rows (\<lambda>db vals. (db, None)) Inr ()
         [(2, example_row), (3, Map.empty)]
      = Inr \<lparr>inserted = 1, rejected = 1,
              rejected_samples = [\<lparr>sample_row = 3, sample_errors = msg,
                                    sample_raw_values = raws\<rparr>],
              cursor = ()\<rparr>"
    by (simp add: insert_rows_def valid_row_example e INSERT_COLUMNS_def)
  from insert_rows_counts [OF run] run show ?thesis by simp
qed

text \<open>
  C9: when \<open>insert_rows\<close> returns, the list of reject samples holds the samples of the
  first 20 rows that the validator found invalid, in the order of the input; it has at
  most 20 entries, however many rows were rejected.
\<close>

theorem reject_samples_bounded:
  assumes "insert_rows exec commit db rows = Inr st"
  shows "length (rejected_samples st) \<le> 20
         \<and> rejected_samples st = take 20 (invalid_row_samples rows)
         \<and> length (invalid_row_samples rows) \<le> rejected st"
proof -
  from insert_rows_Inr [OF assms] obtain st0 where
    l: "insert_loop exec rows \<lparr>inserted = 0, rejected = 0, rejected_samples = [], cursor = db\<rparr>
       = Inr st0"
    and eq: "rejected st = rejected st0" "rejected_samples st = rejected_samples st0"
    by blast
  from insert_loop_samples [OF l] have "rejected_samples st0 = take 20 (invalid_row_samples rows)"
    by simp
  moreover from insert_loop_rejected [OF l] have "length (invalid_row_samples rows) \<le> rejected st0"
    by simp
  ultimately show ?thesis by (simp add: eq)
qed

theorem reject_samples_bounded_witness:
  "\<exists>st. insert_rows (\<lambda>db vals. (db, None)) Inr () (replicate 21 (5, Map.empty)) = Inr st
       \<and> length (rejected_samples st) = 20 \<and> 21 \<le> rejected st"
proof -
  from empty_row_invalid [of 5] obtain conv msg raws where
    e: "validate_and_convert_row 5 Map.empty = Inr (conv, False, msg, raws)" by blast
  have inv: "invalid_row_samples (replicate k (5, Map.empty))
      = replicate k \<lparr>sample_row = 5, sample_errors = msg, sample_raw_values = raws\<rparr>" for k
    by (induction k) (simp_all add: e)
  have "\<exists>st. insert_rows (\<lambda>db vals. (db, None)) Inr () (replicate 21 (5, Map.empty)) = Inr st"
    by (rule insert_rows_total) simp_all
  then obtain st where
    run: "insert_rows (\<lambda>db vals. (db, None)) Inr () (replicate 21 (5, Map.empty)) = Inr st"
    by blast
  from reject_samples_bounded [OF run] run show ?thesis
    by (auto simp: inv)
qed

section \<open>Claims about the row validator\<close>

text \<open>
  C2, which the code breaks: a row is to be valid iff no required field converted to
  \<open>None\<close>, whatever happens in the other columns. In the first row every required field
  converts to a value; its floor is \<open>inf\<close>, the converter of the floor raises, the
  validator records the fault as a field error, and the row is invalid. With any other
  malformed floor, as in the second row, the floor is stored as \<open>None\<close> and the row is
  valid. The fault is the one of C3.
\<close>

theorem floor_infinity_rejects_row:
  "validate_and_convert_row 2 (example_row(''floor'' \<mapsto> CStr ''inf''))
   = Inr ([(''price'', VFloat (Fin False 4503599627370496 (- 52))),
       (''price_per_meter'', VFloat (Fin False 4503599627370496 (- 52))),
       (''offer_type'', VStr ''a''), (''floor'', VNone), (''area'', VNone),
       (''rooms'', VInt 1), (''offer_type_of_building'', VNone),
       (''market'', VStr ''a''), (''city_name'', VStr ''a''),
       (''voivodeship'', VStr ''a''), (''month'', VNone),
       (''year'', VInt 1), (''population'', VInt 1),
       (''longitude'', VFloat (Fin False 4503599627370496 (- 52))),
       (''latitude'', VFloat (Fin False 4503599627370496 (- 52)))],
      False, Some ''  floor: cannot convert float infinity to integer'',
      [(''price'', ''1''), (''price_per_meter'', ''1''),
       (''offer_type'', ''a''), (''floor'', ''inf''), (''area'', []),
       (''rooms'', ''1''), (''offer_type_of_building'', []),
       (''market'', ''a''), (''city_name'', ''a''),
       (''voivodeship'', ''a''), (''month'', []), (''year'', ''1''),
       (''population'', ''1''), (''longitude'', ''1''),
       (''latitude'', ''1'')])
   \<and> (\<exists>conv raws. validate_and_convert_row 2 example_row = Inr (conv, True, None, raws)
         \<and> map_of raws ''floor'' = Some ''x'' \<and> map_of conv ''floor'' = Some VNone)"
  by (simp add: valid_row_example) (simp add: row_eval example_row_def)


lemma reject_samples_origin:
  assumes "insert_rows exec commit db rows = Inr st"
    and "smp \<in> set (rejected_samples st)"
  shows "\<exists>n r conv msg raws. (n, r) \<in> set rows
       \<and> validate_and_convert_row n r = Inr (conv, False, msg, raws)
       \<and> smp = \<lparr>sample_row = n, sample_errors = msg, sample_raw_values = raws\<rparr>"
proof -
  from insert_rows_Inr [OF assms(1)] obtain st0 where
    l: "insert_loop exec rows \<lparr>inserted = 0, rejected = 0, rejected_samples = [], cursor = db\<rparr>
       = Inr st0"
    and eq: "rejected_samples st = rejected_samples st0"
    by blast
  from insert_loop_samples [OF l] have "rejected_samples st0 = take 20 (invalid_row_samples rows)"
    by simp
  with assms(2) eq have "smp \<in> set (invalid_row_samples rows)"
    by (auto dest: in_set_takeD)
  then show ?thesis by (rule invalid_row_samples_origin)
qed

text \<open>
  C4, which the code breaks: an error in one row is to be counted and the run to go on
  with the next row. A line with fewer fields than the header gives a row with \<open>None\<close>
  cells; \<open>validate_and_convert_row\<close> calls \<open>strip\<close> on such a cell outside its \<open>try\<close>, and
  the \<open>AttributeError\<close> leaves \<open>insert_rows\<close>: the run ends without a count, also after
  rows that were inserted, and before the commit.
\<close>

theorem short_row_aborts:
  "insert_rows exec commit db [(2, short_row)] = Inl (AttributeError none_strip_message)
   \<and> insert_rows (\<lambda>db vals. (vals # db, None)) Inr [] [(2, example_row), (3, short_row)]
       = Inl (AttributeError none_strip_message)"
proof -
  have v: "validate_and_convert_row n short_row = Inl (AttributeError none_strip_message)" for n
    by (simp add: row_eval short_row_def)
  show ?thesis
    by (simp add: insert_rows_def v valid_row_example INSERT_COLUMNS_def)
qed

text \<open>
  C10: the raw values of a reject sample are the trimmed cells of its row, not the
  cells as they were read: for each column the sample holds the text without the
  whitespace at its ends (the empty string for an absent column), the field errors are
  built from that text, and the report prints its lines from it.
\<close>

theorem reject_sample_raw_values_trimmed:
  assumes "insert_rows exec commit db rows = Inr st"
    and "smp \<in> set (rejected_samples st)"
  shows "\<exists>n r. (n, r) \<in> set rows \<and> sample_row smp = n
      \<and> (\<forall>cd \<in> set COLUMN_DEFS.
            map_of (sample_raw_values smp) (fst cd) = Some (raw_text r (fst cd))
            \<and> (\<forall>s. r (fst cd) = Some (CStr s) \<longrightarrow> raw_text r (fst cd) = strip s)
            \<and> (raw_text r (fst cd) = []
                \<or> (\<not> isspace (hd (raw_text r (fst cd)))
                    \<and> \<not> isspace (last (raw_text r (fst cd))))))
      \<and> sample_errors smp =
            Some (join [CHR 0x0A]
                   (concat (map (\<lambda>cd. column_errors (fst cd) (snd cd) (raw_text r (fst cd)))
                              COLUMN_DEFS)))
      \<and> report_raw_lines smp
          = map (\<lambda>f. raw_value_line [(f, raw_text r f)] f) REQUIRED_FIELDS"
proof -
  from reject_samples_origin [OF assms] obtain n r conv msg raws where
    mem: "(n, r) \<in> set rows"
    and v: "validate_and_convert_row n r = Inr (conv, False, msg, raws)"
    and smp: "smp = \<lparr>sample_row = n, sample_errors = msg, sample_raw_values = raws\<rparr>"
    by blast
  note st = validate_row_Inr(3) [OF v]
  have ends: "raw_text r c = [] \<or> (\<not> isspace (hd (raw_text r c)) \<and> \<not> isspace (last (raw_text r c)))"
    for c
    using strip_ends by (auto simp: raw_text_def split: option.splits cell.splits)
  have cols: "\<forall>cd \<in> set COLUMN_DEFS.
            map_of raws (fst cd) = Some (raw_text r (fst cd))
            \<and> (\<forall>s. r (fst cd) = Some (CStr s) \<longrightarrow> raw_text r (fst cd) = strip s)
            \<and> (raw_text r (fst cd) = []
                \<or> (\<not> isspace (hd (raw_text r (fst cd)))
                    \<and> \<not> isspace (last (raw_text r (fst cd)))))"
  proof
    fix cd assume "cd \<in> set COLUMN_DEFS"
    then have "(fst cd, snd cd) \<in> set COLUMN_DEFS" by simp
    from st [OF this] ends [of "fst cd"]
    show "map_of raws (fst cd) = Some (raw_text r (fst cd))
            \<and> (\<forall>s. r (fst cd) = Some (CStr s) \<longrightarrow> raw_text r (fst cd) = strip s)
            \<and> (raw_text r (fst cd) = []
                \<or> (\<not> isspace (hd (raw_text r (fst cd)))
                    \<and> \<not> isspace (last (raw_text r (fst cd)))))"
      by (simp add: raw_text_def)
  qed
  from validate_row_Inr(1) [OF v] have
    "concat (map (\<lambda>cd. column_errors (fst cd) (snd cd) (raw_text r (fst cd))) COLUMN_DEFS) \<noteq> []"
    by auto
  with validate_row_Inr(2) [OF v] have errs: "msg =
      Some (join [CHR 0x0A]
             (concat (map (\<lambda>cd. column_errors (fst cd) (snd cd) (raw_text r (fst cd)))
                        COLUMN_DEFS)))"
    by (simp add: Let_def)
  have line: "raw_value_line raws f = raw_value_line [(f, raw_text r f)] f"
    if "f \<in> set REQUIRED_FIELDS" for f
  proof -
    from that required_are_columns obtain d where "(f, d) \<in> set COLUMN_DEFS" by auto
    from st [OF this] show ?thesis by (simp add: raw_value_line_def)
  qed
  have rep: "report_raw_lines smp = map (\<lambda>f. raw_value_line [(f, raw_text r f)] f) REQUIRED_FIELDS"
    unfolding report_raw_lines_def smp using line by simp
  from mem cols errs rep show ?thesis
    unfolding smp by (intro exI [of _ n] exI [of _ r]) simp
qed

theorem reject_sample_raw_values_trimmed_witness:
  "\<exists>st smp. insert_rows (\<lambda>db vals. (db, None)) Inr () [(2, [''price'' \<mapsto> CStr ''  x 1  ''])] = Inr st
     \<and> smp \<in> set (rejected_samples st)
     \<and> map_of (sample_raw_values smp) ''price'' = Some ''x 1''
     \<and> hd (report_raw_lines smp) = ''    price: x 1''"
proof -
  let ?r = "[''price'' \<mapsto> CStr ''  x 1  '']"
  have "\<exists>st. insert_rows (\<lambda>db vals. (db, None)) Inr () [(2, ?r)] = Inr st"
    by (rule insert_rows_total) simp_all
  then obtain st where run: "insert_rows (\<lambda>db vals. (db, None)) Inr () [(2, ?r)] = Inr st"
    by blast
  have "\<exists>conv msg raws. validate_and_convert_row 2 ?r = Inr (conv, False, msg, raws)"
    by (simp add: row_eval)
  then obtain conv msg raws where
    v: "validate_and_convert_row 2 ?r = Inr (conv, False, msg, raws)" by blast
  define smp where "smp = \<lparr>sample_row = 2, sample_errors = msg, sample_raw_values = raws\<rparr>"
  from run have "rejected_samples st = [smp]"
    by (simp add: insert_rows_def v smp_def split: sum.splits) auto
  then have mem: "smp \<in> set (rejected_samples st)" by simp
  have t: "raw_text ?r ''price'' = ''x 1''"
    by (simp add: raw_text_def strip_def strip_with_def isspace_def)
  have c: "(''price'', \<lparr>sql_type = ''float'', nullable = False,
              converter = (\<lambda>x. parse_float x)\<rparr>) \<in> set COLUMN_DEFS"
    by (simp add: COLUMN_DEFS_def)
  from reject_sample_raw_values_trimmed [OF run mem] c t
  have "map_of (sample_raw_values smp) ''price'' = Some ''x 1''"
    "report_raw_lines smp = map (\<lambda>f. raw_value_line [(f, raw_text ?r f)] f) REQUIRED_FIELDS"
    by auto
  then have "map_of (sample_raw_values smp) ''price'' = Some ''x 1''"
    "hd (report_raw_lines smp) = ''    price: x 1''"
    using t by (simp_all add: REQUIRED_FIELDS_def raw_value_line_def)
  with run mem show ?thesis by blast
qed

section \<open>Claims about the scalar converters\<close>

text \<open>
  C3, which the code breaks: the converters are to return a value or \<open>None\<close> and never
  raise. On \<open>inf\<close> the call \<open>float\<close> succeeds and \<open>int\<close> raises \<open>OverflowError\<close>, which
  the \<open>except\<close> clause of \<open>_parse_int\<close> and of \<open>_parse_tinyint\<close> does not catch.
\<close>

theorem parse_int_inf_raises:
  "parse_int ''inf'' = Inl (OverflowError ''cannot convert float infinity to integer'')
   \<and> parse_tinyint ''inf'' = Inl (OverflowError ''cannot convert float infinity to integer'')"
  by (simp add: conv_eval)

text \<open>
  C6, which the code breaks: for every input the small-integer converter is to return
  the integer when it lies between 0 and 255 and \<open>None\<close> otherwise. On an infinity
  \<open>int\<close> raises \<open>OverflowError\<close>, which the \<open>except\<close> clause does not catch, and the
  converter raises where the claim has \<open>None\<close>; on a NaN and on a number out of range
  it returns \<open>None\<close>. The fault is the one of C3.
\<close>

theorem parse_tinyint_raises_on_infinity:
  "parse_tinyint ''-Infinity'' = Inl (OverflowError ''cannot convert float infinity to integer'')
   \<and> parse_tinyint ''nan'' = Inr VNone
   \<and> parse_tinyint ''1e30'' = Inr VNone
   \<and> parse_tinyint ''255'' = Inr (VInt 255)
   \<and> parse_tinyint ''256'' = Inr VNone
   \<and> parse_tinyint ''-1'' = Inr VNone"
  by (simp add: conv_eval)

text \<open>
  C7, which the code breaks: for every input the integer converter is to return the
  truncated integer, or \<open>None\<close> when the parse fails. On an infinity \<open>float\<close> succeeds
  and \<open>int\<close> raises \<open>OverflowError\<close>, which the \<open>except\<close> clause does not catch: the
  converter raises where the claim has an integer or \<open>None\<close>. On a NaN, where \<open>int\<close>
  raises \<open>ValueError\<close>, and on a string that \<open>float\<close> rejects, it returns \<open>None\<close>. The
  fault is the one of C3.
\<close>

theorem parse_int_raises_on_infinity:
  "parse_int ''Infinity'' = Inl (OverflowError ''cannot convert float infinity to integer'')
   \<and> parse_int ''nan'' = Inr VNone
   \<and> parse_int ''abc'' = Inr VNone
   \<and> parse_int ''5,00'' = Inr (VInt 5)
   \<and> parse_int ''5.9'' = Inr (VInt 5)"
  by (simp add: conv_eval)

text \<open>
  C8: the float converter reads a comma as a period. An input and the same input with
  its commas written as periods give the same result; whenever \<open>float\<close> accepts the
  trimmed input with periods, the converter returns that float; a decimal literal with
  an optional sign gives the binary64 number nearest to its value, whether its
  separator is a comma or a period; \<open>3,14\<close> and \<open>3.14\<close> both give the binary64 number
  nearest to 3.14, which is \<open>7070651414971679 / 2^51\<close>.
\<close>

theorem parse_float_comma_period:
  "parse_float (comma_to_period s) = parse_float s
   \<and> (\<forall>x. strip s \<noteq> [] \<longrightarrow> py_float (comma_to_period (strip s)) = Inr x \<longrightarrow>
          parse_float s = Inr (VFloat x))
   \<and> (list_all is_digit ip \<longrightarrow> list_all is_digit fp \<longrightarrow> ip @ fp \<noteq> [] \<longrightarrow>
        sg \<in> {[], ''+'', ''-''} \<longrightarrow>
          parse_float (sg @ ip @ '','' @ fp)
            = Inr (VFloat (to_double (sg = ''-'') (digits_val (ip @ fp)) (10 ^ length fp)))
          \<and> parse_float (sg @ ip @ ''.'' @ fp)
            = Inr (VFloat (to_double (sg = ''-'') (digits_val (ip @ fp)) (10 ^ length fp))))
   \<and> parse_float ''3,14'' = Inr (VFloat (Fin False 7070651414971679 (- 51)))
   \<and> parse_float ''3.14'' = Inr (VFloat (Fin False 7070651414971679 (- 51)))"
proof -
  have ex: "parse_float ''3,14'' = Inr (VFloat (Fin False 7070651414971679 (- 51)))"
    "parse_float ''3.14'' = Inr (VFloat (Fin False 7070651414971679 (- 51)))"
    by (simp_all add: conv_eval)
  have lit: "parse_float (sg @ ip @ [sep] @ fp)
            = Inr (VFloat (to_double (sg = ''-'') (digits_val (ip @ fp)) (10 ^ length fp)))"
    if "list_all is_digit ip" "list_all is_digit fp" "ip @ fp \<noteq> []" "sg \<in> {[], ''+'', ''-''}"
      "sep = CHR '','' \<or> sep = CHR ''.''" for sep
    using that by (rule parse_float_literal)
  show ?thesis
    using ex lit [of "CHR '',''"] lit [of "CHR ''.''"] parse_float_of_float [of s]
    by (simp only: parse_float_comma) blast
qed

theorem parse_float_comma_period_witness:
  "strip '' 2,5 '' \<noteq> []
   \<and> py_float (comma_to_period (strip '' 2,5 '')) = Inr (Fin False 5629499534213120 (- 51))
   \<and> parse_float '' 2,5 '' = Inr (VFloat (Fin False 5629499534213120 (- 51)))
   \<and> list_all is_digit ''2'' \<and> list_all is_digit ''5''
   \<and> parse_float ''-2,5'' = Inr (VFloat (Fin True 5629499534213120 (- 51)))
   \<and> parse_float ''-2.5'' = Inr (VFloat (Fin True 5629499534213120 (- 51)))"
proof -
  have a: "strip '' 2,5 '' \<noteq> []"
    by (simp add: strip_def strip_with_def isspace_def)
  have b: "py_float (comma_to_period (strip '' 2,5 '')) = Inr (Fin False 5629499534213120 (- 51))"
    by (simp add: conv_eval)
  have c: "list_all is_digit ''2''" "list_all is_digit ''5''"
    by (simp_all add: is_digit_def)
  have d: "to_double (''-'' = ''-'') (digits_val (''2'' @ ''5'')) (10 ^ length ''5'')
      = Fin True 5629499534213120 (- 51)"
    by (simp add: float_eval)
  from parse_float_comma_period [of "'' 2,5 ''" "''2''" "''5''" "''-''"] a b c d
  show ?thesis by simp
qed

text \<open>
  C5, as stated: every converter returns \<open>None\<close> on an input of whitespace only. The
  converter of the string columns returns a string of two spaces as it is.
\<close>

theorem str50_whitespace_counterexample:
  "list_all isspace ''  '' \<and> str50 ''  '' \<noteq> Inr VNone"
  by (simp add: str50_def isspace_def)

text \<open>
  C5, amended: on an input that is empty or all whitespace the float, integer and
  small-integer converters return \<open>None\<close>; the string converter returns \<open>None\<close> on the
  empty string only. The row validator trims a cell before it converts it, so a cell of
  whitespace only is recorded as the empty string and stored as \<open>None\<close> in every
  column.
\<close>

theorem converters_whitespace:
  assumes "list_all isspace s"
  shows "parse_float s = Inr VNone \<and> parse_int s = Inr VNone \<and> parse_tinyint s = Inr VNone
         \<and> (str50 s = Inr VNone \<longleftrightarrow> s = [])
         \<and> (\<forall>n r conv valid msg raws cd.
               validate_and_convert_row n r = Inr (conv, valid, msg, raws) \<longrightarrow>
               cd \<in> set COLUMN_DEFS \<longrightarrow> r (fst cd) = Some (CStr s) \<longrightarrow>
                 map_of raws (fst cd) = Some [] \<and> map_of conv (fst cd) = Some VNone)"
proof -
  have e: "strip s = []" using assms by (rule strip_whitespace)
  have "str50 [] = Inr VNone" by (simp add: str50_def)
  moreover have "parse_float [] = Inr VNone" "parse_int [] = Inr VNone"
    "parse_tinyint [] = Inr VNone"
    by (simp_all add: parse_float_def parse_int_def parse_tinyint_def)
  ultimately have all: "\<forall>cd \<in> set COLUMN_DEFS. column_value (snd cd) [] = VNone"
    by (simp add: COLUMN_DEFS_def column_value_def)
  have v: "map_of raws (fst cd) = Some [] \<and> map_of conv (fst cd) = Some VNone"
    if "validate_and_convert_row n r = Inr (conv, valid, msg, raws)"
      "cd \<in> set COLUMN_DEFS" "r (fst cd) = Some (CStr s)" for n r conv valid msg raws cd
  proof -
    from that(2) have "(fst cd, snd cd) \<in> set COLUMN_DEFS" by simp
    from validate_row_Inr(3) [OF that(1) this] that(3) e all that(2)
    show ?thesis by (simp add: raw_text_def)
  qed
  from e parse_whitespace [OF e] v show ?thesis
    by (simp add: str50_def)
qed

theorem converters_whitespace_witness:
  "\<exists>conv valid msg raws.
     validate_and_convert_row 2 [''city_name'' \<mapsto> CStr [CHR '' '', CHR 0x09, CHR 0xA0]]
       = Inr (conv, valid, msg, raws)
     \<and> map_of raws ''city_name'' = Some []
     \<and> map_of conv ''city_name'' = Some VNone
     \<and> list_all isspace [CHR '' '', CHR 0x09, CHR 0xA0]
     \<and> parse_float [CHR '' '', CHR 0x09, CHR 0xA0] = Inr VNone
     \<and> str50 [CHR '' '', CHR 0x09, CHR 0xA0] \<noteq> Inr VNone"
proof -
  let ?s = "[CHR '' '', CHR 0x09, CHR 0xA0]"
  let ?r = "[''city_name'' \<mapsto> CStr ?s]"
  have h: "list_all isspace ?s" by (simp add: isspace_def)
  have "\<exists>res. validate_and_convert_row 2 ?r = Inr res"
    by (rule validate_row_total) simp
  then obtain res where "validate_and_convert_row 2 ?r = Inr res" by blast
  moreover obtain conv valid msg raws where "res = (conv, valid, msg, raws)" by (cases res)
  ultimately have v: "validate_and_convert_row 2 ?r = Inr (conv, valid, msg, raws)" by simp
  have c: "(''city_name'', \<lparr>sql_type = ''nvarchar(50)'', nullable = False,
              converter = str50\<rparr>) \<in> set COLUMN_DEFS"
    by (simp add: COLUMN_DEFS_def)
  from converters_whitespace [OF h] v c
  have "map_of raws ''city_name'' = Some [] \<and> map_of conv ''city_name'' = Some VNone"
    "parse_float ?s = Inr VNone" "str50 ?s \<noteq> Inr VNone"
    by fastforce+
  with v h show ?thesis by blast
qed

end
